theory Spec2Isabelle
  imports Main "HOL-Library.Word"
begin

chapter \<open>The ACME client of acme-suite-js\<close>

text \<open>
  A shallow embedding of \<open>lib/jweb-client.js\<close> (the HTTPS transport with its nonce cache
  and its JSON Web Tokens) and of \<open>lib/acme-client.js\<close> (the protocol engine and its
  helpers), with the properties of the specification proved or refuted about them.
  Callbacks become results: a function of the model returns what its callback is called
  with, and the state of the client and of the network after that.
\<close>

section \<open>File-name sanitising (lib/acme-client.js, makeSafeFileName)\<close>

text \<open>
  A JavaScript string is a sequence of 16-bit code units, and a regular expression
  without the \<open>u\<close> flag matches code units. \<open>makeSafeFileName\<close> is the one function
  of the client whose result depends on the numeric value of the code units, so it is
  modelled on \<open>16 word list\<close>.
\<close>

type_synonym ustring = "16 word list"

definition utf16 :: "string \<Rightarrow> ustring" where
  \<comment> \<open>the code units of an ASCII literal\<close>
  "utf16 s = map (\<lambda>c. of_nat (of_char c)) s"

definition regex_file :: "16 word \<Rightarrow> bool" where
  \<comment> \<open>the character class \<open>[<>:"/\\\|\?\*\u0000-\u001f\u007f\u0080-\u009f]\<close>\<close>
  "regex_file c \<longleftrightarrow>
     c = 0x3C \<or> c = 0x3E \<or> c = 0x3A \<or> c = 0x22 \<or> c = 0x2F \<or> c = 0x5C \<or> c = 0x7C \<or>
     c = 0x3F \<or> c = 0x2A \<or> c \<le> 0x1F \<or> c = 0x7F \<or> (0x80 \<le> c \<and> c \<le> 0x9F)"

definition regex_path :: "16 word \<Rightarrow> bool" where
  \<comment> \<open>the character class \<open>[<>:"\\\|\?\*\u0000-\u001f\u007f\u0080-\u009f]\<close>\<close>
  "regex_path c \<longleftrightarrow>
     c = 0x3C \<or> c = 0x3E \<or> c = 0x3A \<or> c = 0x22 \<or> c = 0x5C \<or> c = 0x7C \<or>
     c = 0x3F \<or> c = 0x2A \<or> c \<le> 0x1F \<or> c = 0x7F \<or> (0x80 \<le> c \<and> c \<le> 0x9F)"

definition hex_digit :: "nat \<Rightarrow> 16 word" where
  \<comment> \<open>one digit of \<open>toString(16).toLocaleUpperCase()\<close>: \<open>0..9\<close>, then \<open>A..F\<close>\<close>
  "hex_digit d = (if d < 10 then of_nat (48 + d) else of_nat (55 + d))"

function toString16 :: "nat \<Rightarrow> ustring" where
  "toString16 n = (if n < 16 then [hex_digit n] else toString16 (n div 16) @ [hex_digit (n mod 16)])"
  by pat_completeness auto
termination
  by (relation "measure id") auto

declare toString16.simps [simp del]

definition replacer :: "16 word \<Rightarrow> ustring" where
  \<comment> \<open>the replacement callback: \<open>"%" + charToReplace.charCodeAt(0).toString(16).toLocaleUpperCase()\<close>;
      its argument is always a string, so the \<open>"%00"\<close> branch is dead\<close>
  "replacer c = 0x25 # toString16 (unat c)"

definition makeSafeFileName :: "ustring \<Rightarrow> bool \<Rightarrow> ustring" where
  \<comment> \<open>\<open>name.replace(new RegExp(withPath ? regex_path : regex_file, "g"), ...)\<close>; a
      \<open>name\<close> that is not a string is replaced by \<open>""\<close> before, which the type leaves out\<close>
  "makeSafeFileName name withPath =
     concat (map (\<lambda>c. if (if withPath then regex_path c else regex_file c) then replacer c else [c]) name)"

definition hex_value :: "ustring \<Rightarrow> nat" where
  \<comment> \<open>the number that a numeral written in the digits \<open>0..9\<close>, \<open>A..F\<close> denotes in base 16\<close>
  "hex_value ds = foldl (\<lambda>a c. 16 * a + (if c \<le> 0x39 then unat c - 48 else unat c - 55)) 0 ds"

section \<open>Properties of makeSafeFileName\<close>

lemma hex_digit_cases:
  assumes "d < 16"
  shows "hex_digit d \<in> {0x30, 0x31, 0x32, 0x33, 0x34, 0x35, 0x36, 0x37, 0x38, 0x39,
                         0x41, 0x42, 0x43, 0x44, 0x45, 0x46}"
proof -
  from assms have "d \<in> {0, 1, 2, 3, 4, 5, 6, 7, 8, 9, 10, 11, 12, 13, 14, 15}"
    by simp arith
  then show ?thesis
    by (auto simp: hex_digit_def)
qed

lemma hex_digit_safe:
  assumes "d < 16"
  shows "\<not> regex_file (hex_digit d)"
  using hex_digit_cases [OF assms] by (auto simp: regex_file_def)

lemma regex_path_file: "regex_path c \<Longrightarrow> regex_file c"
  by (auto simp: regex_path_def regex_file_def)

lemma toString16_safe: "\<forall>c \<in> set (toString16 n). \<not> regex_file c"
proof (induction n rule: toString16.induct)
  case (1 n)
  show ?case
  proof (cases "n < 16")
    case True
    then show ?thesis
      by (simp add: toString16.simps [of n] hex_digit_safe)
  next
    case False
    with "1" show ?thesis
      by (simp add: toString16.simps [of n] hex_digit_safe)
  qed
qed

lemma replacer_safe: "\<forall>c \<in> set (replacer x). \<not> regex_file c"
  using toString16_safe [of "unat x"] by (simp add: replacer_def regex_file_def)

lemma makeSafeFileName_safe:
  "\<forall>c \<in> set (makeSafeFileName s p). \<not> (if p then regex_path c else regex_file c)"
  using replacer_safe regex_path_file by (auto simp: makeSafeFileName_def split: if_splits)

lemma makeSafeFileName_fixed:
  "\<forall>c \<in> set s. \<not> (if p then regex_path c else regex_file c) \<Longrightarrow> makeSafeFileName s p = s"
  by (induction s) (auto simp: makeSafeFileName_def)

lemma hex_digit_value:
  assumes "d < 16"
  shows "(if hex_digit d \<le> 0x39 then unat (hex_digit d) - 48 else unat (hex_digit d) - 55) = d"
proof -
  from assms have "d \<in> {0, 1, 2, 3, 4, 5, 6, 7, 8, 9, 10, 11, 12, 13, 14, 15}"
    by simp arith
  then show ?thesis
    by (auto simp: hex_digit_def)
qed

lemma toString16_value: "hex_value (toString16 n) = n"
proof (induction n rule: toString16.induct)
  case (1 n)
  show ?case
  proof (cases "n < 16")
    case True
    then show ?thesis
      using hex_digit_value [of n] by (simp add: toString16.simps [of n] hex_value_def)
  next
    case False
    with "1" show ?thesis
      using hex_digit_value [of "n mod 16"] by (simp add: toString16.simps [of n] hex_value_def)
  qed
qed

lemma makeSafeFileName_Cons:
  "makeSafeFileName (c # s) p =
     (if (if p then regex_path c else regex_file c) then 0x25 # toString16 (unat c) else [c])
     @ makeSafeFileName s p"
  by (simp add: makeSafeFileName_def replacer_def)

lemma hex_digit_upper:
  assumes "d < 16"
  shows "hex_digit d \<in> {0x30..0x39} \<union> {0x41..0x46}"
  using hex_digit_cases [OF assms] by auto

lemma toString16_upper: "set (toString16 n) \<subseteq> {0x30..0x39} \<union> {0x41..0x46}"
proof (induction n rule: toString16.induct)
  case (1 n)
  show ?case
  proof (cases "n < 16")
    case True
    then show ?thesis
      using hex_digit_upper [of n] by (simp add: toString16.simps [of n])
  next
    case False
    with "1" show ?thesis
      using hex_digit_upper [of "n mod 16"] by (simp add: toString16.simps [of n])
  qed
qed

lemma toString16_not_Nil: "toString16 n \<noteq> []"
  by (simp add: toString16.simps [of n])

lemma toString16_no_padding: "toString16 n = [0x30] \<or> hd (toString16 n) \<noteq> 0x30"
proof (induction n rule: toString16.induct)
  case (1 n)
  show ?case
  proof (cases "n < 16")
    case True
    then have "n \<in> {0, 1, 2, 3, 4, 5, 6, 7, 8, 9, 10, 11, 12, 13, 14, 15}"
      by simp arith
    then show ?thesis
      by (auto simp: toString16.simps [of n] hex_digit_def)
  next
    case False
    then have "n div 16 \<noteq> 0"
      by simp
    have "toString16 (n div 16) \<noteq> [0x30]"
    proof
      assume "toString16 (n div 16) = [0x30]"
      then have "hex_value (toString16 (n div 16)) = 0"
        by (simp add: hex_value_def)
      then show False
        using \<open>n div 16 \<noteq> 0\<close> by (simp add: toString16_value)
    qed
    with "1" False have "hd (toString16 (n div 16)) \<noteq> 0x30"
      by simp
    then show ?thesis
      using False toString16_not_Nil [of "n div 16"] by (simp add: toString16.simps [of n])
  qed
qed

lemma regex_file_class:
  "regex_file c \<longleftrightarrow>
     c \<in> {0x22, 0x2A, 0x2F, 0x3A, 0x3C, 0x3E, 0x3F, 0x5C, 0x7C} \<union> {0x00..0x1F} \<union> {0x7F} \<union> {0x80..0x9F}"
  by (auto simp: regex_file_def)

lemma regex_path_class:
  "regex_path c \<longleftrightarrow>
     c \<in> {0x22, 0x2A, 0x3A, 0x3C, 0x3E, 0x3F, 0x5C, 0x7C} \<union> {0x00..0x1F} \<union> {0x7F} \<union> {0x80..0x9F}"
  by (auto simp: regex_path_def)

lemma makeSafeFileName_class:
  "makeSafeFileName (c # s) p =
     (if c \<in> {0x22, 0x2A, 0x3A, 0x3C, 0x3E, 0x3F, 0x5C, 0x7C} \<union> {0x00..0x1F} \<union> {0x7F} \<union> {0x80..0x9F}
             \<union> (if p then {} else {0x2F})
      then 0x25 # toString16 (unat c) else [c])
     @ makeSafeFileName s p"
  unfolding makeSafeFileName_Cons regex_file_class regex_path_class by auto

lemma makeSafeFileName_twice:
  "makeSafeFileName (makeSafeFileName s p) p = makeSafeFileName s p"
  using makeSafeFileName_safe [of s p] by (rule makeSafeFileName_fixed)

lemma makeSafeFileName_abc_def:
  "makeSafeFileName (utf16 ''abc.def'') False = utf16 ''abc.def''"
  by (simp add: makeSafeFileName_def utf16_def regex_file_def)

lemma makeSafeFileName_cat_passwd:
  "makeSafeFileName (utf16 ''/my/file'' @ [0x22] @ utf16 ''| cat passwd'') True
     = utf16 ''/my/file%22%7C cat passwd''"
  by (simp add: makeSafeFileName_def utf16_def regex_path_def replacer_def
      toString16.simps hex_digit_def)

lemma makeSafeFileName_forbidden_file:
  "makeSafeFileName (utf16 ''a/b:c*d?.txt'') False = utf16 ''a%2Fb%3Ac%2Ad%3F.txt''"
  by (simp add: makeSafeFileName_def utf16_def regex_file_def replacer_def
      toString16.simps hex_digit_def)

lemma makeSafeFileName_forbidden_path:
  "makeSafeFileName (utf16 ''a/b:c*d?.txt'') True = utf16 ''a/b%3Ac%2Ad%3F.txt''"
  by (simp add: makeSafeFileName_def utf16_def regex_path_def replacer_def
      toString16.simps hex_digit_def)

lemma makeSafeFileName_control:
  "makeSafeFileName [0x0A, 0x7F, 0x9F, 0xA0, 0x20AC] p = utf16 ''%A%7F%9F'' @ [0xA0, 0x20AC]"
  by (cases p) (simp_all add: makeSafeFileName_def utf16_def regex_path_def regex_file_def
      replacer_def toString16.simps hex_digit_def)

text \<open>
  Claim C9. For every string and either setting of \<open>withPath\<close>, \<open>makeSafeFileName\<close>
  works code unit by code unit. The forbidden code units are those of
  \<open>" * : < > ? \ |\<close> (0x22, 0x2A, 0x3A, 0x3C, 0x3E, 0x3F, 0x5C, 0x7C), the controls
  0x00 to 0x1F, 0x7F and 0x80 to 0x9F, and, only when \<open>withPath\<close> is false, the slash
  0x2F. A forbidden code unit becomes \<open>%\<close> followed by its code in base 16, written in
  the digits \<open>0..9\<close>, \<open>A..F\<close> without zero padding; every other code unit is kept.
  Applying the function twice gives the same as applying it once. \<open>"abc.def"\<close> is
  unchanged; \<open>/my/file"| cat passwd\<close> with a path becomes
  \<open>/my/file%22%7C cat passwd\<close>; \<open>a/b:c*d?.txt\<close> becomes \<open>a%2Fb%3Ac%2Ad%3F.txt\<close>
  without a path and \<open>a/b%3Ac%2Ad%3F.txt\<close> with one; a line feed becomes \<open>%A\<close>, and
  0xA0 and the euro sign are kept.
\<close>

theorem makeSafeFileName_encodes_idempotent:
  "makeSafeFileName [] p = []
   \<and> makeSafeFileName (c # s) p =
       (if c \<in> {0x22, 0x2A, 0x3A, 0x3C, 0x3E, 0x3F, 0x5C, 0x7C} \<union> {0x00..0x1F} \<union> {0x7F} \<union> {0x80..0x9F}
               \<union> (if p then {} else {0x2F})
        then 0x25 # toString16 (unat c) else [c])
       @ makeSafeFileName s p
   \<and> hex_value (toString16 n) = n
   \<and> set (toString16 n) \<subseteq> {0x30..0x39} \<union> {0x41..0x46}
   \<and> (toString16 n = [0x30] \<or> hd (toString16 n) \<noteq> 0x30)
   \<and> makeSafeFileName (makeSafeFileName s p) p = makeSafeFileName s p
   \<and> makeSafeFileName (utf16 ''abc.def'') False = utf16 ''abc.def''
   \<and> makeSafeFileName (utf16 ''/my/file'' @ [0x22] @ utf16 ''| cat passwd'') True
       = utf16 ''/my/file%22%7C cat passwd''
   \<and> makeSafeFileName (utf16 ''a/b:c*d?.txt'') False = utf16 ''a%2Fb%3Ac%2Ad%3F.txt''
   \<and> makeSafeFileName (utf16 ''a/b:c*d?.txt'') True = utf16 ''a/b%3Ac%2Ad%3F.txt''
   \<and> makeSafeFileName [0x0A, 0x7F, 0x9F, 0xA0, 0x20AC] p = utf16 ''%A%7F%9F'' @ [0xA0, 0x20AC]"
proof -
  have "makeSafeFileName [] p = []"
    by (simp add: makeSafeFileName_def)
  then show ?thesis
    using makeSafeFileName_class [of c s p] toString16_value [of n] toString16_upper [of n]
      toString16_no_padding [of n] makeSafeFileName_twice [of s p] makeSafeFileName_abc_def
      makeSafeFileName_cat_passwd makeSafeFileName_forbidden_file
      makeSafeFileName_forbidden_path makeSafeFileName_control [of p]
    by blast
qed

section \<open>JavaScript values\<close>

text \<open>
  The client inspects its arguments and the server's answers dynamically
  (\<open>instanceof Object\<close>, \<open>typeof x == "string"\<close>), so they are modelled by one type of
  values. A \<open>JBuf\<close> is a Node \<open>Buffer\<close>. Text is a \<open>string\<close>; \<open>new Buffer(s, 'utf8')\<close> and
  \<open>buf.toString('utf8')\<close> are the identity on it. Numbers are restricted to integers.
  An object is the list of its properties in insertion order.
\<close>

datatype jsval =
    JUndef
  | JNull
  | JBool bool
  | JNum int
  | JStr string
  | JArr "jsval list"
  | JObj "(string \<times> jsval) list"
  | JBuf string

fun instanceof_Object :: "jsval \<Rightarrow> bool" where
  \<comment> \<open>objects, arrays and Buffers are instances of \<open>Object\<close>; primitives, \<open>null\<close> and
      \<open>undefined\<close> are not\<close>
  "instanceof_Object (JArr _) = True"
| "instanceof_Object (JObj _) = True"
| "instanceof_Object (JBuf _) = True"
| "instanceof_Object _ = False"

fun instanceof_Array :: "jsval \<Rightarrow> bool" where
  "instanceof_Array (JArr _) = True"
| "instanceof_Array _ = False"

fun js_get :: "jsval \<Rightarrow> string \<Rightarrow> jsval" where
  \<comment> \<open>\<open>x[k]\<close> for the property names the client reads (none is inherited from a
      prototype). On \<open>null\<close> and \<open>undefined\<close> JavaScript throws: the client reads a
      property only behind an \<open>instanceof Object\<close> test, except in \<open>selectChallenge\<close>,
      whose model states the throw.\<close>
  "js_get (JObj kvs) k = (case map_of kvs k of Some v \<Rightarrow> v | None \<Rightarrow> JUndef)"
| "js_get _ k = JUndef"

fun assign :: "(string \<times> jsval) list \<Rightarrow> string \<Rightarrow> jsval \<Rightarrow> (string \<times> jsval) list" where
  "assign [] k v = [(k, v)]"
| "assign ((k', v') # kvs) k v = (if k' = k then (k, v) # kvs else (k', v') # assign kvs k v)"

fun js_set :: "jsval \<Rightarrow> string \<Rightarrow> jsval \<Rightarrow> jsval" where
  \<comment> \<open>\<open>x[k] = v\<close> on an object; the client assigns only to plain objects\<close>
  "js_set (JObj kvs) k v = JObj (assign kvs k v)"
| "js_set x k v = x"

function toString10 :: "nat \<Rightarrow> string" where
  "toString10 n = (if n < 10 then [char_of (48 + n)] else toString10 (n div 10) @ [char_of (48 + n mod 10)])"
  by pat_completeness auto
termination
  by (relation "measure id") auto

declare toString10.simps [simp del]

fun join :: "string \<Rightarrow> string list \<Rightarrow> string" where
  "join sep [] = []"
| "join sep [x] = x"
| "join sep (x # y # ys) = x @ sep @ join sep (y # ys)"

fun js_to_string :: "jsval \<Rightarrow> string" where
  \<comment> \<open>the conversion that \<open>+\<close> with a string and \<open>==\<close> with a string apply\<close>
  "js_to_string JUndef = ''undefined''"
| "js_to_string JNull = ''null''"
| "js_to_string (JBool b) = (if b then ''true'' else ''false'')"
| "js_to_string (JNum n) = (if n < 0 then CHR ''-'' # toString10 (nat (- n)) else toString10 (nat n))"
| "js_to_string (JStr s) = s"
| "js_to_string (JArr xs) =
     join '','' (map (\<lambda>x. if x = JUndef \<or> x = JNull then [] else js_to_string x) xs)"
| "js_to_string (JObj kvs) = ''[object Object]''"
| "js_to_string (JBuf b) = b"

fun loose_eq :: "jsval \<Rightarrow> string \<Rightarrow> bool" where
  \<comment> \<open>\<open>x == s\<close> for a string \<open>s\<close> that is not a numeral (\<open>"http-01"\<close>, \<open>"pending"\<close>):
      such a string equals no number, no boolean, neither \<open>null\<close> nor \<open>undefined\<close>, and an
      object is converted to a string first\<close>
  "loose_eq (JStr t) s = (t = s)"
| "loose_eq (JArr xs) s = (js_to_string (JArr xs) = s)"
| "loose_eq (JObj kvs) s = (js_to_string (JObj kvs) = s)"
| "loose_eq (JBuf b) s = (js_to_string (JBuf b) = s)"
| "loose_eq _ s = False"

definition pop :: "jsval list \<Rightarrow> jsval" where
  \<comment> \<open>\<open>Array.prototype.pop\<close>: the last element, \<open>undefined\<close> on an empty array\<close>
  "pop xs = (if xs = [] then JUndef else last xs)"

section \<open>Helpers of the ACME client (lib/acme-client.js)\<close>

datatype js_error = TypeError

definition selectChallenge :: "jsval \<Rightarrow> string \<Rightarrow> js_error + jsval" where
  \<comment> \<open>\<open>entry["type"]\<close> throws on an entry that is \<open>null\<close>; \<open>filter\<close> visits every entry\<close>
  "selectChallenge ans challenge_type =
     (if instanceof_Object ans \<and> instanceof_Array (js_get ans ''challenges'') then
        (case js_get ans ''challenges'' of
           JArr entries \<Rightarrow>
             if JNull \<in> set entries \<or> JUndef \<in> set entries then Inl TypeError
             else Inr (pop (filter (\<lambda>entry. loose_eq (js_get entry ''type'') challenge_type) entries))
         | _ \<Rightarrow> Inr JUndef)
      else Inr JUndef)"

definition extractEmail :: "jsval \<Rightarrow> string option" where
  \<comment> \<open>\<open>None\<close> is the \<open>undefined\<close> the source returns; \<open>!entry.indexOf(prefix)\<close> holds
      when the entry starts with the prefix\<close>
  "extractEmail profile =
     (if \<not> instanceof_Object profile then None
      else if \<not> instanceof_Array (js_get profile ''contact'') then None
      else
        (case js_get profile ''contact'' of
           JArr contact \<Rightarrow>
             (case pop (filter (\<lambda>entry. case entry of JStr e \<Rightarrow> take 7 e = ''mailto:'' | _ \<Rightarrow> False) contact) of
                JStr email \<Rightarrow> Some (drop 7 email)
              | _ \<Rightarrow> None)
         | _ \<Rightarrow> None))"



section \<open>The libraries the client calls\<close>

text \<open>
  \<open>JSON\<close>, \<open>base64url\<close>, \<open>crypto\<close> and \<open>jwa\<close> are not code of the repository; the model
  takes them as a record of functions. \<open>parse\<close> gives \<open>None\<close> where \<open>JSON.parse\<close> throws.
  The signer is applied to keys it accepts.
\<close>

record lib =
  stringify :: "jsval \<Rightarrow> string"
  parse :: "string \<Rightarrow> jsval option"
  base64url_encode :: "string \<Rightarrow> string"
  base64url_toBuffer :: "jsval \<Rightarrow> string"
  sha256 :: "string \<Rightarrow> string"
  jwa_sign :: "string \<Rightarrow> string \<Rightarrow> jsval \<Rightarrow> string"

definition json_to_utf8base64url :: "lib \<Rightarrow> jsval \<Rightarrow> string" where
  "json_to_utf8base64url L obj = base64url_encode L (stringify L obj)"

definition json_to_utf8buffer :: "lib \<Rightarrow> jsval \<Rightarrow> string" where
  "json_to_utf8buffer L obj = stringify L obj"

section \<open>JSON Web Tokens (lib/jweb-client.js, createJWT)\<close>

definition jwt_header :: "jsval \<Rightarrow> string \<Rightarrow> jsval \<Rightarrow> jsval" where
  \<comment> \<open>the header object as \<open>createJWT\<close> builds it; \<open>nonce != void 0\<close> fails for
      \<open>undefined\<close> and for \<open>null\<close>\<close>
  "jwt_header nonce alg jwk =
     (let header = JObj [];
          header = js_set header ''typ'' (JStr ''JWT'');
          header = js_set header ''alg'' (JStr alg);
          header = js_set header ''jwk'' jwk
      in if nonce \<noteq> JUndef \<and> nonce \<noteq> JNull then js_set header ''nonce'' nonce else header)"

definition createJWT :: "lib \<Rightarrow> jsval \<Rightarrow> jsval \<Rightarrow> string \<Rightarrow> jsval \<Rightarrow> jsval \<Rightarrow> string" where
  "createJWT L nonce payload alg key jwk =
     (let key = (if instanceof_Object key then JBuf (base64url_toBuffer L (js_get key ''k'')) else key);
          header = jwt_header nonce alg jwk;
          input = json_to_utf8base64url L header @ ''.'' @ json_to_utf8base64url L payload;
          sig = jwa_sign L alg input key
      in input @ ''.'' @ sig)"

fun split_on :: "char \<Rightarrow> string \<Rightarrow> string list" where
  \<comment> \<open>\<open>s.split(c)\<close>, which the tests use to take a token apart\<close>
  "split_on c [] = [[]]"
| "split_on c (x # xs) =
     (if x = c then [] # split_on c xs
      else (case split_on c xs of p # ps \<Rightarrow> (x # p) # ps | [] \<Rightarrow> [[x]]))"

section \<open>The HTTPS transport (lib/jweb-client.js)\<close>

text \<open>
  The network is a finite script: the list of what the server does with the requests to
  come, one \<open>outcome\<close> a request, in order. A request that finds the script empty is
  never answered. Every request, with the body it sends, every timer set and every file
  written is appended to a trace. Console output (\<open>evaluateStatus\<close>, \<open>verbose\<close>) is not
  modelled, except that \<open>evaluateStatus\<close> throws on a \<open>uri\<close> that is not a string
  (\<open>url.parse\<close>).
\<close>

record response =
  statusCode :: int
  headers :: "string \<rightharpoonup> string"

datatype outcome = Reply response string | NetError

datatype event =
    Request string string "string option"
  | Timer int
  | FileWrite string jsval

record env =
  pending :: "outcome list"
  trace :: "event list"

record JWebClient =
  key_pair :: jsval
  last_nonce :: jsval

definition header_of :: "response \<Rightarrow> string \<Rightarrow> jsval" where
  "header_of res k = (case headers res k of Some v \<Rightarrow> JStr v | None \<Rightarrow> JUndef)"

fun contains :: "string \<Rightarrow> string \<Rightarrow> bool" where
  "contains [] sub = (sub = [])"
| "contains (c # cs) sub = (take (length sub) (c # cs) = sub \<or> contains cs sub)"

definition isJSON :: "response \<Rightarrow> bool" where
  \<comment> \<open>\<open>typeof res.headers["content-type"] == "string"
       && res.headers["content-type"].indexOf("json") > -1\<close>\<close>
  "isJSON res = (case headers res ''content-type'' of Some t \<Rightarrow> contains t ''json'' | None \<Rightarrow> False)"

text \<open>
  What \<open>request\<close> does with its two callbacks: \<open>callback(json, res)\<close> inside the
  \<open>try\<close> block, \<open>callback(buf, res)\<close> outside of it, \<open>errorCallback(void 0, e)\<close> on a
  transport error or on a body that \<open>JSON.parse\<close> rejects, or nothing at all.
\<close>

datatype received = Json jsval response | Raw string response | Failed | Nothing

definition request :: "lib \<Rightarrow> jsval \<Rightarrow> string option \<Rightarrow> env \<Rightarrow> received \<times> env" where
  "request L query payload e =
     (let query = (case query of JStr q \<Rightarrow> q | _ \<Rightarrow> []);
          method = (case payload of Some _ \<Rightarrow> ''POST'' | None \<Rightarrow> ''GET'');
          e = e\<lparr>trace := trace e @ [Request method query payload]\<rparr>
      in case pending e of
           [] \<Rightarrow> (Nothing, e)
         | NetError # rest \<Rightarrow> (Failed, e\<lparr>pending := rest\<rparr>)
         | Reply res buf # rest \<Rightarrow>
             if isJSON res \<and> buf \<noteq> [] then
               (case parse L buf of
                  Some json \<Rightarrow> (Json json res, e\<lparr>pending := rest\<rparr>)
                | None \<Rightarrow> (Failed, e\<lparr>pending := rest\<rparr>))
             else (Raw buf res, e\<lparr>pending := rest\<rparr>))"

text \<open>
  What \<open>get\<close> and \<open>post\<close> do with theirs: the callback is called with the answer, the
  error callback is called, neither is, or the exception of \<open>evaluateStatus\<close> leaves
  the \<open>end\<close> handler uncaught. The wrapper that \<open>get\<close> and \<open>post\<close> put around the
  callback stores the nonce after \<open>evaluateStatus\<close>; the error callback is passed on
  unwrapped. A response of Node always has a \<open>headers\<close> object, so the test for it holds.
\<close>

datatype reply = Called jsval response | Errored | Silent | Crashed

definition deliver :: "jsval \<Rightarrow> received \<Rightarrow> JWebClient \<Rightarrow> reply \<times> JWebClient" where
  "deliver uri r j =
     (case r of
        Nothing \<Rightarrow> (Silent, j)
      | Failed \<Rightarrow> (Errored, j)
      | Json ans res \<Rightarrow>
          (case uri of
             JStr _ \<Rightarrow> (Called ans res, j\<lparr>last_nonce := header_of res ''replay-nonce''\<rparr>)
           | _ \<Rightarrow> (Errored, j))
      | Raw buf res \<Rightarrow>
          (case uri of
             JStr _ \<Rightarrow> (Called (JBuf buf) res, j\<lparr>last_nonce := header_of res ''replay-nonce''\<rparr>)
           | _ \<Rightarrow> (Crashed, j)))"

definition get :: "lib \<Rightarrow> jsval \<Rightarrow> JWebClient \<times> env \<Rightarrow> reply \<times> JWebClient \<times> env" where
  "get L uri = (\<lambda>(j, e).
     (case request L uri None e of (r, e) \<Rightarrow>
        (case deliver uri r j of (a, j) \<Rightarrow> (a, j, e))))"

definition post :: "lib \<Rightarrow> jsval \<Rightarrow> jsval \<Rightarrow> JWebClient \<times> env \<Rightarrow> reply \<times> JWebClient \<times> env" where
  "post L uri payload = (\<lambda>(j, e).
     (let key_pair = (if instanceof_Object (key_pair j) then key_pair j else JObj []);
          jwt = createJWT L (last_nonce j) payload ''RS256''
                  (js_get key_pair ''private_pem'') (js_get key_pair ''public_jwk'')
      in case request L uri (Some jwt) e of (r, e) \<Rightarrow>
           (case deliver uri r j of (a, j) \<Rightarrow> (a, j, e))))"


section \<open>The ACME client (lib/acme-client.js)\<close>

record AcmeClient =
  clientProfilePubKey :: jsval
  directory :: jsval
  directory_url :: jsval
  jWebClient :: JWebClient
  regLink :: jsval
  tosLink :: jsval
  webroot :: string
  well_known_path :: string
  withInteraction :: bool

text \<open>
  The second argument of a callback of the client is a response, the \<open>Error\<close> object that
  \<open>request\<close> hands to an error callback, or missing. A callback of an operation is called
  with two arguments, never called, or the process has ended on an uncaught exception.
  \<open>to_both\<close> is for the operations that pass their callback as error callback too.
\<close>

datatype resv = Res response | ErrorObject | NoRes

datatype callback = Invoked jsval resv | Never | Crash

definition new_JWebClient :: JWebClient where
  "new_JWebClient = \<lparr>key_pair = JNull, last_nonce = JNull\<rparr>"

definition new_AcmeClient :: "jsval \<Rightarrow> JWebClient \<Rightarrow> AcmeClient" where
  "new_AcmeClient url j =
     \<lparr>clientProfilePubKey = JObj [], directory = JObj [], directory_url = url, jWebClient = j,
      regLink = JNull, tosLink = JNull, webroot = ''.'',
      well_known_path = ''/.well-known/acme-challenge/'', withInteraction = True\<rparr>"

definition via :: "(JWebClient \<times> env \<Rightarrow> reply \<times> JWebClient \<times> env) \<Rightarrow> AcmeClient \<times> env \<Rightarrow> reply \<times> AcmeClient \<times> env" where
  "via f = (\<lambda>(c, e). case f (jWebClient c, e) of (a, j, e) \<Rightarrow> (a, c\<lparr>jWebClient := j\<rparr>, e))"

fun to_both :: "reply \<Rightarrow> callback" where
  "to_both (Called ans res) = Invoked ans (Res res)"
| "to_both Errored = Invoked JUndef ErrorObject"
| "to_both Silent = Never"
| "to_both Crashed = Crash"

fun to_callback :: "reply \<Rightarrow> callback" where
  "to_callback (Called ans res) = Invoked ans (Res res)"
| "to_callback Errored = Never"
| "to_callback Silent = Never"
| "to_callback Crashed = Crash"


definition newRegistration :: "lib \<Rightarrow> jsval \<Rightarrow> AcmeClient \<times> env \<Rightarrow> callback \<times> AcmeClient \<times> env" where
  "newRegistration L payload = (\<lambda>(c, e).
     (let payload = (if instanceof_Object payload then payload else JObj []);
          payload = js_set payload ''resource'' (JStr ''new-reg'')
      in case via (post L (js_get (directory c) ''new-reg'') payload) (c, e) of (a, s) \<Rightarrow> (to_both a, s)))"




definition makeKeyAuthorization :: "lib \<Rightarrow> AcmeClient \<Rightarrow> jsval \<Rightarrow> jsval" where
  "makeKeyAuthorization L c challenge =
     (if instanceof_Object challenge then
        (if instanceof_Object (clientProfilePubKey c) then
           (let jwk = json_to_utf8buffer L
                        (JObj [(''e'', js_get (clientProfilePubKey c) ''e''),
                               (''kty'', js_get (clientProfilePubKey c) ''kty''),
                               (''n'', js_get (clientProfilePubKey c) ''n'')]);
                hash = sha256 L jwk;
                account_key = base64url_encode L hash;
                token = js_get challenge ''token''
            in JStr (js_to_string token @ ''.'' @ account_key))
         else JUndef)
      else JStr [])"





lemma request_pending:
  "request L q p e = (r, e') \<Longrightarrow> r \<noteq> Nothing \<Longrightarrow> length (pending e') < length (pending e)"
  by (auto simp: request_def Let_def split: list.splits outcome.splits if_splits option.splits)

lemma get_pending:
  "via (get L uri) (c, e) = (Called ans res, c', e') \<Longrightarrow> length (pending e') < length (pending e)"
  by (auto simp: via_def get_def deliver_def dest: request_pending
      split: prod.splits received.splits jsval.splits)

text \<open>
  The pollers and \<open>authorizeDomain\<close> call themselves from their callbacks. Each such call
  comes after an answer of the server, so the script left is the measure.
\<close>

function pollUntilValid :: "lib \<Rightarrow> jsval \<Rightarrow> int option \<Rightarrow> AcmeClient \<times> env \<Rightarrow> callback \<times> AcmeClient \<times> env" where
  "pollUntilValid L uri retry s =
     (let retry = (case retry of None \<Rightarrow> 1 | Some r \<Rightarrow> if r = 0 then 1 else r)
      in if retry > 128 then (Invoked (JBool False) NoRes, s)
         else
           (case via (get L uri) s of
              (Called ans res, c, e) \<Rightarrow>
                if \<not> instanceof_Object ans then (Invoked (JBool False) NoRes, c, e)
                else if loose_eq (js_get ans ''status'') ''pending''
                then pollUntilValid L uri (Some (retry * 2)) (c, e\<lparr>trace := trace e @ [Timer (retry * 500)]\<rparr>)
                else (Invoked ans (Res res), c, e)
            | (a, s) \<Rightarrow> (to_callback a, s)))"
  by pat_completeness auto
termination
  by (relation "measure (\<lambda>(L, uri, retry, c, e). length (pending e))")
     (auto dest: get_pending [OF sym])


declare pollUntilValid.simps [simp del]

function pollUntilIssued :: "lib \<Rightarrow> jsval \<Rightarrow> int option \<Rightarrow> AcmeClient \<times> env \<Rightarrow> callback \<times> AcmeClient \<times> env" where
  "pollUntilIssued L uri retry s =
     (let retry = (case retry of None \<Rightarrow> 1 | Some r \<Rightarrow> if r = 0 then 1 else r)
      in if retry > 128 then (Invoked (JBool False) NoRes, s)
         else
           (case via (get L uri) s of
              (Called ans res, c, e) \<Rightarrow>
                if (case ans of JBuf b \<Rightarrow> b \<noteq> [] | _ \<Rightarrow> False) then (Invoked ans NoRes, c, e)
                else if statusCode res < 400
                then pollUntilIssued L uri (Some (retry * 2)) (c, e\<lparr>trace := trace e @ [Timer (retry * 500)]\<rparr>)
                else (Invoked (JBool False) NoRes, c, e)
            | (a, s) \<Rightarrow> (to_callback a, s)))"
  by pat_completeness auto
termination
  by (relation "measure (\<lambda>(L, uri, retry, c, e). length (pending e))")
     (auto dest: get_pending [OF sym])

declare pollUntilIssued.simps [simp del]













definition createAccount :: "lib \<Rightarrow> jsval \<Rightarrow> AcmeClient \<times> env \<Rightarrow> callback \<times> AcmeClient \<times> env" where
  "createAccount L email = (\<lambda>(c, e).
     (case email of
        JStr address \<Rightarrow>
          (case newRegistration L (JObj [(''contact'', JArr [JStr (''mailto:'' @ address)])]) (c, e) of
             (Invoked ans res, c, e) \<Rightarrow>
               (case res of
                  Res r \<Rightarrow>
                    if statusCode r = 201 then
                      (case headers r ''location'' of
                         Some location \<Rightarrow> (Invoked (JStr location) NoRes, c\<lparr>regLink := JStr location\<rparr>, e)
                       | None \<Rightarrow> (Invoked (JBool False) NoRes, c, e))
                    else (Invoked (JBool False) NoRes, c, e)
                | _ \<Rightarrow> (Invoked (JBool False) NoRes, c, e))
           | other \<Rightarrow> other)
      | _ \<Rightarrow> (Invoked (JBool False) NoRes, c, e)))"

section \<open>Doubles of the libraries\<close>

text \<open>
  Concrete runs need concrete libraries. As the tests of the repository put a canned
  \<open>https.request\<close> in place of the network, the runs below use doubles: a serialiser for
  values whose strings need no escapes, a parser that knows the documents of the run at
  hand (it inverts the serialiser on them and rejects any other text), base64url as RFC
  4648 defines it, and a fixed digest and signature. No theorem about the client depends
  on the doubles: each one holds for every \<open>lib\<close>, under the hypotheses it states.
\<close>

definition quoted :: "string \<Rightarrow> string" where
  "quoted s = [CHR 0x22] @ s @ [CHR 0x22]"

fun plain_stringify :: "jsval \<Rightarrow> string" where
  "plain_stringify JUndef = ''null''"
| "plain_stringify JNull = ''null''"
| "plain_stringify (JBool b) = (if b then ''true'' else ''false'')"
| "plain_stringify (JNum n) = js_to_string (JNum n)"
| "plain_stringify (JStr s) = quoted s"
| "plain_stringify (JArr xs) = ''['' @ join '','' (map plain_stringify xs) @ '']''"
| "plain_stringify (JObj kvs) =
     ''{'' @ join '','' (map (\<lambda>kv. quoted (fst kv) @ '':'' @ plain_stringify (snd kv))
                         (filter (\<lambda>kv. snd kv \<noteq> JUndef) kvs)) @ ''}''"
| "plain_stringify (JBuf b) = ''{}''"

definition parse_among :: "jsval list \<Rightarrow> string \<Rightarrow> jsval option" where
  "parse_among docs s =
     (case filter (\<lambda>v. plain_stringify v = s) docs of v # _ \<Rightarrow> Some v | [] \<Rightarrow> None)"

definition b64_alphabet :: string where
  "b64_alphabet = ''ABCDEFGHIJKLMNOPQRSTUVWXYZabcdefghijklmnopqrstuvwxyz0123456789-_''"

fun b64_sextets :: "nat list \<Rightarrow> nat list" where
  "b64_sextets (a # b # c # rest) =
     [a div 4, (a mod 4) * 16 + b div 16, (b mod 16) * 4 + c div 64, c mod 64] @ b64_sextets rest"
| "b64_sextets [a, b] = [a div 4, (a mod 4) * 16 + b div 16, (b mod 16) * 4]"
| "b64_sextets [a] = [a div 4, (a mod 4) * 16]"
| "b64_sextets [] = []"

definition base64url :: "string \<Rightarrow> string" where
  "base64url s = map (\<lambda>n. b64_alphabet ! n) (b64_sextets (map of_char s))"

fun b64_octets :: "nat list \<Rightarrow> nat list" where
  "b64_octets (a # b # c # d # rest) =
     [a * 4 + b div 16, (b mod 16) * 16 + c div 4, (c mod 4) * 64 + d] @ b64_octets rest"
| "b64_octets [a, b, c] = [a * 4 + b div 16, (b mod 16) * 16 + c div 4]"
| "b64_octets [a, b] = [a * 4 + b div 16]"
| "b64_octets _ = []"

fun index_of :: "char \<Rightarrow> string \<Rightarrow> nat" where
  "index_of c [] = 0"
| "index_of c (x # xs) = (if x = c then 0 else Suc (index_of c xs))"

definition base64url_decode :: "string \<Rightarrow> string" where
  "base64url_decode s = map char_of (b64_octets (map (\<lambda>c. index_of c b64_alphabet) s))"

definition double :: "jsval list \<Rightarrow> lib" where
  "double docs =
     \<lparr>stringify = plain_stringify, parse = parse_among docs, base64url_encode = base64url,
      base64url_toBuffer = (\<lambda>v. base64url_decode (js_to_string v)),
      sha256 = (\<lambda>s. ''digest('' @ s @ '')''),
      jwa_sign = (\<lambda>alg input key. base64url (alg @ '' signature''))\<rparr>"

definition has_own :: "jsval \<Rightarrow> string \<Rightarrow> bool" where
  \<comment> \<open>\<open>x.hasOwnProperty(k)\<close>: the property is there, whatever its value\<close>
  "has_own x k = (case x of JObj kvs \<Rightarrow> map_of kvs k \<noteq> None | _ \<Rightarrow> False)"

definition example_jwk :: jsval where
  "example_jwk = JObj [(''e'', JStr ''AQAB''), (''kty'', JStr ''RSA''), (''n'', JStr ''abc'')]"

definition example_payload :: jsval where
  "example_payload = JObj [(''hello'', JStr ''world'')]"

definition example_client :: AcmeClient where
  "example_client =
     (new_AcmeClient (JStr ''https://ca.example/directory'') new_JWebClient)
       \<lparr>clientProfilePubKey := JObj [(''e'', JStr ''d''), (''kty'', JStr ''e''), (''n'', JStr ''f'')]\<rparr>"


section \<open>Claims about the helpers\<close>

text \<open>
  Claim C8 says that \<open>extractEmail\<close> returns the first entry of \<open>contact\<close> that begins
  with \<open>mailto:\<close>, as the comment above the function does. The function takes the
  \<open>pop()\<close> of the filtered array, the last such entry: with two addresses in the
  profile it returns the second. With one address only, as in the test of the
  repository, first and last are the same entry.
\<close>

theorem extractEmail_returns_last_mailto:
  "extractEmail (JObj [(''contact'',
       JArr [JStr ''mailto:first@example.com'', JStr ''mailto:second@example.com''])])
     = Some ''second@example.com''
   \<and> extractEmail (JObj [(''contact'',
       JArr [JStr ''tel:+1234'', JNull, JStr ''mailto:info@example.com''])])
     = Some ''info@example.com''
   \<and> extractEmail (JObj [(''contact'', JArr [JStr ''tel:+1234''])]) = None
   \<and> extractEmail JNull = None"
  by (simp add: extractEmail_def pop_def)

text \<open>
  Claim C3 says that the challenge selected is the first of type \<open>http-01\<close>, as the
  comment in \<open>selectChallenge\<close> does (\<open>return first match or undefined\<close>). The function
  takes the \<open>pop()\<close> of the filtered array, the last match: of two \<open>http-01\<close> challenges
  it selects the second. Without a match the result is \<open>undefined\<close>.
\<close>

theorem selectChallenge_returns_last_match:
  "selectChallenge
     (JObj [(''challenges'',
        JArr [JObj [(''type'', JStr ''http-01''), (''token'', JStr ''first'')],
              JObj [(''type'', JStr ''http-01''), (''token'', JStr ''second'')]])])
     ''http-01''
     = Inr (JObj [(''type'', JStr ''http-01''), (''token'', JStr ''second'')])
   \<and> selectChallenge
     (JObj [(''challenges'', JArr [JObj [(''type'', JStr ''dns-01''), (''token'', JStr ''first'')]])])
     ''http-01''
     = Inr JUndef"
  by (simp add: selectChallenge_def pop_def)

lemma js_get_object: "js_get x k = JStr T \<Longrightarrow> instanceof_Object x"
  by (cases x) auto

text \<open>
  Claim C5. For a challenge whose \<open>token\<close> is the string \<open>T\<close> and a cached public key with
  the fields \<open>e\<close>, \<open>kty\<close> and \<open>n\<close> (and any others), \<open>makeKeyAuthorization\<close> returns \<open>T\<close>,
  a dot, and the base64url encoding of the SHA-256 digest of the JSON text of the object
  with exactly the fields \<open>e\<close>, \<open>kty\<close>, \<open>n\<close>, in this order. The result depends on the
  client through the cached key only, so it is the same in every run.
\<close>

theorem makeKeyAuthorization_value:
  assumes "js_get challenge ''token'' = JStr T"
    and "clientProfilePubKey c = JObj key"
    and "map_of key ''e'' = Some e" and "map_of key ''kty'' = Some kty" and "map_of key ''n'' = Some n"
  shows "makeKeyAuthorization L c challenge
           = JStr (T @ ''.'' @ base64url_encode L (sha256 L (stringify L
                (JObj [(''e'', e), (''kty'', kty), (''n'', n)]))))
    \<and> (\<forall>c'. clientProfilePubKey c' = clientProfilePubKey c
          \<longrightarrow> makeKeyAuthorization L c' challenge = makeKeyAuthorization L c challenge)"
  using assms js_get_object [OF assms(1)]
  by (simp add: makeKeyAuthorization_def json_to_utf8buffer_def Let_def)

theorem makeKeyAuthorization_value_witness:
  "makeKeyAuthorization (double []) example_client (JObj [(''token'', JStr ''abc'')])
     = JStr ''abc.ZGlnZXN0KHsiZSI6ImQiLCJrdHkiOiJlIiwibiI6ImYifSk''
   \<and> split_on CHR ''.'' ''abc.ZGlnZXN0KHsiZSI6ImQiLCJrdHkiOiJlIiwibiI6ImYifSk''
     = [''abc'', ''ZGlnZXN0KHsiZSI6ImQiLCJrdHkiOiJlIiwibiI6ImYifSk'']"
proof -
  have 1: "js_get (JObj [(''token'', JStr ''abc'')]) ''token'' = JStr ''abc''"
    by simp
  have 2: "clientProfilePubKey example_client = JObj [(''e'', JStr ''d''), (''kty'', JStr ''e''), (''n'', JStr ''f'')]"
    by (simp add: example_client_def)
  have 3: "base64url_encode (double []) (sha256 (double []) (stringify (double [])
              (JObj [(''e'', JStr ''d''), (''kty'', JStr ''e''), (''n'', JStr ''f'')])))
           = ''ZGlnZXN0KHsiZSI6ImQiLCJrdHkiOiJlIiwibiI6ImYifSk''"
    by code_simp
  have 4: "split_on CHR ''.'' ''abc.ZGlnZXN0KHsiZSI6ImQiLCJrdHkiOiJlIiwibiI6ImYifSk''
     = [''abc'', ''ZGlnZXN0KHsiZSI6ImQiLCJrdHkiOiJlIiwibiI6ImYifSk'']"
    by simp
  show ?thesis
    using makeKeyAuthorization_value [OF 1 2, of "JStr ''d''" "JStr ''e''" "JStr ''f''" "double []"] 3 4
    by simp
qed

lemma split_on_none: "c \<notin> set s \<Longrightarrow> split_on c s = [s]"
  by (induction s) auto

lemma split_on_first: "c \<notin> set a \<Longrightarrow> split_on c (a @ c # b) = a # split_on c b"
  by (induction a) auto

lemma jwt_header_fields:
  "js_get (jwt_header nonce alg jwk) ''typ'' = JStr ''JWT''
   \<and> js_get (jwt_header nonce alg jwk) ''alg'' = JStr alg
   \<and> js_get (jwt_header nonce alg jwk) ''jwk'' = jwk
   \<and> has_own (jwt_header nonce alg jwk) ''nonce'' = (nonce \<noteq> JUndef \<and> nonce \<noteq> JNull)
   \<and> js_get (jwt_header nonce alg jwk) ''nonce'' = (if nonce \<noteq> JUndef \<and> nonce \<noteq> JNull then nonce else JUndef)"
  by (simp add: jwt_header_def has_own_def)

text \<open>
  Claim C6. \<open>createJWT(nonce, P, "RS256", K, jwk)\<close> is \<open>h.p.s\<close>, where \<open>h\<close> and \<open>p\<close> are the
  base64url encodings of the JSON texts of the header and of \<open>P\<close>, and \<open>s\<close> is the
  signature of \<open>h.p\<close>. Where the libraries keep their contracts on these texts (no dot in
  base64url text, a decoder that inverts the encoder, a parser that inverts the
  serialiser), splitting the token at the dots gives the three parts, \<open>p\<close> decodes to
  \<open>P\<close>, and \<open>h\<close> decodes to an object with \<open>typ = "JWT"\<close>, \<open>alg = "RS256"\<close>, the \<open>jwk\<close>
  given, and a \<open>nonce\<close> field exactly when the nonce is neither \<open>undefined\<close> nor \<open>null\<close>.
\<close>

theorem createJWT_round_trip:
  assumes "h = json_to_utf8base64url L (jwt_header nonce ''RS256'' jwk)"
    and "p = json_to_utf8base64url L P"
    and "s = jwa_sign L ''RS256'' (h @ ''.'' @ p)
               (if instanceof_Object K then JBuf (base64url_toBuffer L (js_get K ''k'')) else K)"
    and "CHR ''.'' \<notin> set h" and "CHR ''.'' \<notin> set p" and "CHR ''.'' \<notin> set s"
    and "decode h = stringify L (jwt_header nonce ''RS256'' jwk)"
    and "decode p = stringify L P"
    and "parse L (stringify L (jwt_header nonce ''RS256'' jwk)) = Some (jwt_header nonce ''RS256'' jwk)"
    and "parse L (stringify L P) = Some P"
  shows "split_on CHR ''.'' (createJWT L nonce P ''RS256'' K jwk) = [h, p, s]
    \<and> parse L (decode p) = Some P
    \<and> (\<exists>header. parse L (decode h) = Some header
          \<and> js_get header ''typ'' = JStr ''JWT''
          \<and> js_get header ''alg'' = JStr ''RS256''
          \<and> js_get header ''jwk'' = jwk
          \<and> has_own header ''nonce'' = (nonce \<noteq> JUndef \<and> nonce \<noteq> JNull)
          \<and> js_get header ''nonce'' = (if nonce \<noteq> JUndef \<and> nonce \<noteq> JNull then nonce else JUndef))"
proof -
  have "createJWT L nonce P ''RS256'' K jwk = h @ CHR ''.'' # p @ CHR ''.'' # s"
    using assms(1-3) by (simp add: createJWT_def Let_def)
  then have "split_on CHR ''.'' (createJWT L nonce P ''RS256'' K jwk) = [h, p, s]"
    using assms(4-6) by (simp add: split_on_first split_on_none)
  moreover have "parse L (decode p) = Some P"
    using assms(8,10) by simp
  moreover have "parse L (decode h) = Some (jwt_header nonce ''RS256'' jwk)"
    using assms(7,9) by simp
  ultimately show ?thesis
    using jwt_header_fields [of nonce "''RS256''" jwk] by blast
qed

theorem createJWT_round_trip_witness:
  "split_on CHR ''.''
     (createJWT (double [jwt_header (JStr ''n1'') ''RS256'' example_jwk, example_payload])
        (JStr ''n1'') example_payload ''RS256'' (JStr ''pem'') example_jwk)
   = [''eyJ0eXAiOiJKV1QiLCJhbGciOiJSUzI1NiIsImp3ayI6eyJlIjoiQVFBQiIsImt0eSI6IlJTQSIsIm4iOiJhYmMifSwibm9uY2UiOiJuMSJ9'',
      ''eyJoZWxsbyI6IndvcmxkIn0'',
      ''UlMyNTYgc2lnbmF0dXJl'']
   \<and> parse_among [jwt_header (JStr ''n1'') ''RS256'' example_jwk, example_payload]
        (base64url_decode ''eyJoZWxsbyI6IndvcmxkIn0'') = Some example_payload"
proof -
  let ?L = "double [jwt_header (JStr ''n1'') ''RS256'' example_jwk, example_payload]"
  let ?h = "''eyJ0eXAiOiJKV1QiLCJhbGciOiJSUzI1NiIsImp3ayI6eyJlIjoiQVFBQiIsImt0eSI6IlJTQSIsIm4iOiJhYmMifSwibm9uY2UiOiJuMSJ9''"
  let ?p = "''eyJoZWxsbyI6IndvcmxkIn0''"
  let ?s = "''UlMyNTYgc2lnbmF0dXJl''"
  have 1: "?h = json_to_utf8base64url ?L (jwt_header (JStr ''n1'') ''RS256'' example_jwk)"
    by code_simp
  have 2: "?p = json_to_utf8base64url ?L example_payload"
    by code_simp
  have 3: "?s = jwa_sign ?L ''RS256'' (?h @ ''.'' @ ?p)
      (if instanceof_Object (JStr ''pem'') then JBuf (base64url_toBuffer ?L (js_get (JStr ''pem'') ''k'')) else JStr ''pem'')"
    by code_simp
  have 4: "CHR ''.'' \<notin> set ?h" "CHR ''.'' \<notin> set ?p" "CHR ''.'' \<notin> set ?s"
    by simp_all
  have 5: "base64url_decode ?h = stringify ?L (jwt_header (JStr ''n1'') ''RS256'' example_jwk)"
    by code_simp
  have 6: "base64url_decode ?p = stringify ?L example_payload"
    by code_simp
  have 7: "parse ?L (stringify ?L (jwt_header (JStr ''n1'') ''RS256'' example_jwk))
      = Some (jwt_header (JStr ''n1'') ''RS256'' example_jwk)"
    by code_simp
  have 8: "parse ?L (stringify ?L example_payload) = Some example_payload"
    by code_simp
  have 9: "parse ?L = parse_among [jwt_header (JStr ''n1'') ''RS256'' example_jwk, example_payload]"
    by (simp add: double_def)
  show ?thesis
    using createJWT_round_trip [OF 1 2 3 4 5 6 7 8] 9 by simp
qed

section \<open>Runs of the transport\<close>

text \<open>
  A run of the transport: GETs and POSTs issued one after the other, each when the one
  before has ended.
\<close>

datatype call = GET jsval | POST jsval jsval

fun run :: "lib \<Rightarrow> call list \<Rightarrow> JWebClient \<times> env \<Rightarrow> JWebClient \<times> env" where
  "run L [] s = s"
| "run L (GET uri # cs) s = run L cs (snd (get L uri s))"
| "run L (POST uri payload # cs) s = run L cs (snd (post L uri payload s))"

text \<open>
  The tokens that the POSTs of a trace have sent: the bodies of its requests, in order. A
  GET has no body.
\<close>

fun sent_tokens :: "event list \<Rightarrow> string list" where
  "sent_tokens [] = []"
| "sent_tokens (Request method uri (Some body) # tr) = body # sent_tokens tr"
| "sent_tokens (_ # tr) = sent_tokens tr"

text \<open>
  The nonce that the receiver of a token reads in it, as the tests of the repository take a
  token apart: the text before the first dot, decoded and parsed, is the header, and the
  nonce is its \<open>nonce\<close> field (\<open>undefined\<close> when the header has none). \<open>None\<close> when the
  header does not parse.
\<close>

definition token_nonce :: "lib \<Rightarrow> (string \<Rightarrow> string) \<Rightarrow> string \<Rightarrow> jsval option" where
  "token_nonce L decode token =
     (case split_on CHR ''.'' token of
        h # _ \<Rightarrow> (case parse L (decode h) of Some header \<Rightarrow> Some (js_get header ''nonce'') | None \<Rightarrow> None)
      | [] \<Rightarrow> None)"

fun string_nonce :: "jsval option \<Rightarrow> bool" where
  "string_nonce (Some (JStr s)) = True"
| "string_nonce _ = False"

text \<open>
  The contract of the libraries on the header of a token with a given nonce: no dot in its
  base64url text, a decoder that inverts the encoder on it, a parser that inverts the
  serialiser on it.
\<close>

definition reads_back :: "lib \<Rightarrow> (string \<Rightarrow> string) \<Rightarrow> jsval \<Rightarrow> jsval \<Rightarrow> bool" where
  "reads_back L decode nonce jwk =
     (CHR ''.'' \<notin> set (json_to_utf8base64url L (jwt_header nonce ''RS256'' jwk))
      \<and> decode (json_to_utf8base64url L (jwt_header nonce ''RS256'' jwk))
          = stringify L (jwt_header nonce ''RS256'' jwk)
      \<and> parse L (stringify L (jwt_header nonce ''RS256'' jwk))
          = Some (jwt_header nonce ''RS256'' jwk))"

text \<open>The key and the public key that \<open>post\<close> hands to \<open>createJWT\<close>.\<close>

definition private_pem :: "JWebClient \<Rightarrow> jsval" where
  "private_pem j = js_get (if instanceof_Object (key_pair j) then key_pair j else JObj []) ''private_pem''"

definition public_jwk :: "JWebClient \<Rightarrow> jsval" where
  "public_jwk j = js_get (if instanceof_Object (key_pair j) then key_pair j else JObj []) ''public_jwk''"

text \<open>
  An outcome is decodable when \<open>request\<close> hands it to its callback: an answer arrived, and
  its body, if it is announced as JSON and not empty, is accepted by \<open>JSON.parse\<close>.
\<close>

fun decodable :: "lib \<Rightarrow> outcome \<Rightarrow> bool" where
  "decodable L NetError = False"
| "decodable L (Reply res buf) = (if isJSON res \<and> buf \<noteq> [] then parse L buf \<noteq> None else True)"

fun reply_nonce :: "outcome \<Rightarrow> jsval" where
  "reply_nonce (Reply res buf) = header_of res ''replay-nonce''"
| "reply_nonce NetError = JUndef"

fun string_uri :: "call \<Rightarrow> bool" where
  "string_uri (GET (JStr u)) = True"
| "string_uri (POST (JStr u) payload) = True"
| "string_uri _ = False"

fun is_POST :: "call \<Rightarrow> bool" where
  "is_POST (POST uri payload) = True"
| "is_POST (GET uri) = False"

fun payload_of :: "call \<Rightarrow> jsval" where
  "payload_of (POST uri payload) = payload"
| "payload_of (GET uri) = JUndef"

fun typeof_string :: "jsval \<Rightarrow> bool" where
  "typeof_string (JStr s) = True"
| "typeof_string _ = False"

text \<open>
  The nonce discipline in the claim's words: the calls are made one after the other, and a
  call that is a POST is signed with the \<open>replay-nonce\<close> of the answer to the call before
  it, the first one with the nonce cached at the start. \<open>expected_posts\<close> lists the POSTs
  of a run, each as the nonce it is to be signed with and its payload.
\<close>

definition expected_posts :: "jsval \<Rightarrow> call list \<Rightarrow> outcome list \<Rightarrow> (jsval \<times> jsval) list" where
  "expected_posts cached cs os =
     map (\<lambda>(c, n). (n, payload_of c)) (filter (\<lambda>(c, n). is_POST c) (zip cs (cached # map reply_nonce os)))"

definition example_uri :: jsval where
  "example_uri = JStr ''https://ca.example/acme/new-reg''"

definition nonce_reply :: "int \<Rightarrow> string \<Rightarrow> outcome" where
  \<comment> \<open>an answer with an empty body and a \<open>replay-nonce\<close> header\<close>
  "nonce_reply status nonce =
     Reply \<lparr>statusCode = status, headers = [''replay-nonce'' \<mapsto> nonce]\<rparr> []"

definition truncated_reply :: "string \<Rightarrow> outcome" where
  \<comment> \<open>an answer announced as JSON whose body stops after the opening brace\<close>
  "truncated_reply nonce =
     Reply \<lparr>statusCode = 200,
            headers = [''content-type'' \<mapsto> ''application/json'', ''replay-nonce'' \<mapsto> nonce]\<rparr> ''{''"

definition keyed_client :: JWebClient where
  \<comment> \<open>a transport with an account key\<close>
  "keyed_client =
     \<lparr>key_pair = JObj [(''private_pem'', JStr ''pem''), (''public_jwk'', example_jwk)],
      last_nonce = JNull\<rparr>"

lemma sent_tokens_append: "sent_tokens (xs @ ys) = sent_tokens xs @ sent_tokens ys"
  by (induction xs rule: sent_tokens.induct) auto

lemma get_delivered:
  assumes "pending e = out # rest" and "decodable L out"
  shows "snd (get L (JStr u) (j, e))
       = (j\<lparr>last_nonce := reply_nonce out\<rparr>,
          e\<lparr>trace := trace e @ [Request ''GET'' u None], pending := rest\<rparr>)"
  using assms
  by (cases out)
     (auto simp: get_def request_def deliver_def Let_def split: option.splits)

lemma post_delivered:
  assumes "pending e = out # rest" and "decodable L out"
  shows "snd (post L (JStr u) payload (j, e))
       = (j\<lparr>last_nonce := reply_nonce out\<rparr>,
          e\<lparr>trace := trace e @ [Request ''POST'' u
                 (Some (createJWT L (last_nonce j) payload ''RS256'' (private_pem j) (public_jwk j)))],
            pending := rest\<rparr>)"
  using assms
  by (cases out)
     (auto simp: post_def request_def deliver_def Let_def private_pem_def public_jwk_def
           split: option.splits)

lemma expected_posts_Nil [simp]: "expected_posts n [] os = []"
  by (simp add: expected_posts_def)

lemma expected_posts_Cons [simp]:
  "expected_posts n (c # cs) (out # os)
     = (if is_POST c then [(n, payload_of c)] else []) @ expected_posts (reply_nonce out) cs os"
  by (simp add: expected_posts_def)

lemma expected_posts_single [simp]:
  "expected_posts n (c # cs) [] = (if is_POST c then [(n, payload_of c)] else [])"
  by (simp add: expected_posts_def)

lemma private_pem_nonce [simp]: "private_pem (j\<lparr>last_nonce := n\<rparr>) = private_pem j"
  by (simp add: private_pem_def)

lemma public_jwk_nonce [simp]: "public_jwk (j\<lparr>last_nonce := n\<rparr>) = public_jwk j"
  by (simp add: public_jwk_def)

lemma run_sent:
  assumes "\<forall>c \<in> set cs. string_uri c"
    and "length cs \<le> length (pending e)"
    and "\<forall>out \<in> set (take (length cs) (pending e)). decodable L out"
  shows "sent_tokens (trace (snd (run L cs (j, e))))
           = sent_tokens (trace e)
             @ map (\<lambda>(n, p). createJWT L n p ''RS256'' (private_pem j) (public_jwk j))
                 (expected_posts (last_nonce j) cs (pending e))
       \<and> last_nonce (fst (run L cs (j, e)))
           = last (last_nonce j # map reply_nonce (take (length cs) (pending e)))
       \<and> pending (snd (run L cs (j, e))) = drop (length cs) (pending e)"
  using assms
proof (induction cs arbitrary: j e)
  case Nil
  then show ?case by simp
next
  case (Cons c cs)
  then obtain out rest where p: "pending e = out # rest"
    by (cases "pending e") auto
  with Cons.prems have d: "decodable L out"
    by simp
  show ?case
  proof (cases c)
    case (GET uri)
    with Cons.prems obtain u where u: "uri = JStr u"
      by (cases uri) auto
    let ?j = "j\<lparr>last_nonce := reply_nonce out\<rparr>"
    let ?e = "e\<lparr>trace := trace e @ [Request ''GET'' u None], pending := rest\<rparr>"
    have step: "snd (get L uri (j, e)) = (?j, ?e)"
      using get_delivered [OF p d] u by simp
    have "sent_tokens (trace (snd (run L cs (?j, ?e))))
           = sent_tokens (trace ?e)
             @ map (\<lambda>(n, p). createJWT L n p ''RS256'' (private_pem ?j) (public_jwk ?j))
                 (expected_posts (last_nonce ?j) cs (pending ?e))
       \<and> last_nonce (fst (run L cs (?j, ?e)))
           = last (last_nonce ?j # map reply_nonce (take (length cs) (pending ?e)))
       \<and> pending (snd (run L cs (?j, ?e))) = drop (length cs) (pending ?e)"
      using Cons.prems p by (intro Cons.IH) auto
    then show ?thesis
      using GET step p by (simp add: sent_tokens_append)
  next
    case (POST uri payload)
    with Cons.prems obtain u where u: "uri = JStr u"
      by (cases uri) auto
    let ?j = "j\<lparr>last_nonce := reply_nonce out\<rparr>"
    let ?e = "e\<lparr>trace := trace e @ [Request ''POST'' u
                 (Some (createJWT L (last_nonce j) payload ''RS256'' (private_pem j) (public_jwk j)))],
            pending := rest\<rparr>"
    have step: "snd (post L (JStr u) payload (j, e)) = (?j, ?e)"
      using p d by (rule post_delivered)
    have "sent_tokens (trace (snd (run L cs (?j, ?e))))
           = sent_tokens (trace ?e)
             @ map (\<lambda>(n, p). createJWT L n p ''RS256'' (private_pem ?j) (public_jwk ?j))
                 (expected_posts (last_nonce ?j) cs (pending ?e))
       \<and> last_nonce (fst (run L cs (?j, ?e)))
           = last (last_nonce ?j # map reply_nonce (take (length cs) (pending ?e)))
       \<and> pending (snd (run L cs (?j, ?e))) = drop (length cs) (pending ?e)"
      using Cons.prems p by (intro Cons.IH) auto
    then show ?thesis
      using POST step p u by (simp add: sent_tokens_append)
  qed
qed

lemma expected_posts_subset:
  "fst ` set (expected_posts n cs os) \<subseteq> set (n # map reply_nonce (take (length cs) os))"
proof (induction cs arbitrary: n os)
  case Nil
  then show ?case by simp
next
  case (Cons c cs)
  show ?case
  proof (cases os)
    case Nil
    then show ?thesis by auto
  next
    case (Cons out os')
    with Cons.IH [of "reply_nonce out" os'] show ?thesis
      by auto
  qed
qed

lemma expected_posts_distinct:
  "distinct (filter P (n # map reply_nonce (take (length cs) os)))
   \<Longrightarrow> distinct (filter P (map fst (expected_posts n cs os)))"
proof (induction cs arbitrary: n os)
  case Nil
  then show ?case by simp
next
  case (Cons c cs)
  show ?case
  proof (cases os)
    case Nil
    then show ?thesis by simp
  next
    case os: (Cons out os')
    from Cons.prems os have d: "distinct (filter P (reply_nonce out # map reply_nonce (take (length cs) os')))"
      by (auto split: if_splits)
    then have ih: "distinct (filter P (map fst (expected_posts (reply_nonce out) cs os')))"
      by (rule Cons.IH)
    have "P n \<Longrightarrow> n \<notin> fst ` set (expected_posts (reply_nonce out) cs os')"
      using Cons.prems os expected_posts_subset [of "reply_nonce out" cs os']
      by (auto split: if_splits)
    with ih os show ?thesis
      by auto
  qed
qed

lemma token_nonce_createJWT:
  assumes "reads_back L decode nonce jwk"
  shows "token_nonce L decode (createJWT L nonce P ''RS256'' K jwk)
           = Some (if nonce = JNull then JUndef else nonce)"
proof -
  let ?h = "json_to_utf8base64url L (jwt_header nonce ''RS256'' jwk)"
  obtain rest where "createJWT L nonce P ''RS256'' K jwk = ?h @ CHR ''.'' # rest"
    by (simp add: createJWT_def Let_def)
  moreover have "CHR ''.'' \<notin> set ?h"
    using assms by (simp add: reads_back_def)
  ultimately obtain ps where "split_on CHR ''.'' (createJWT L nonce P ''RS256'' K jwk) = ?h # ps"
    by (simp add: split_on_first)
  moreover have "parse L (decode ?h) = Some (jwt_header nonce ''RS256'' jwk)"
    using assms by (simp add: reads_back_def)
  ultimately show ?thesis
    using jwt_header_fields [of nonce "''RS256''" jwk] by (auto simp: token_nonce_def)
qed

lemma string_nonce_present:
  "filter string_nonce (map (\<lambda>(n, p). Some (if n = JNull then JUndef else n)) xs)
     = map Some (filter typeof_string (map fst xs))"
proof (induction xs)
  case Nil
  then show ?case by simp
next
  case (Cons x xs)
  obtain n p where "x = (n, p)" by (cases x)
  with Cons show ?case
    by (cases n) auto
qed


lemma run_token_nonces:
  assumes "\<forall>n \<in> set (map fst xs). reads_back L decode n jwk"
  shows "map (token_nonce L decode) (map (\<lambda>(n, p). createJWT L n p ''RS256'' K jwk) xs)
           = map (\<lambda>(n, p). Some (if n = JNull then JUndef else n)) xs"
  using assms by (induction xs) (auto simp: token_nonce_createJWT)

lemma deliver_nonce:
  "deliver uri r j = (a, j')
   \<Longrightarrow> last_nonce j' = (case a of Called ans res \<Rightarrow> header_of res ''replay-nonce'' | _ \<Rightarrow> last_nonce j)"
  by (cases r; cases uri) (auto simp: deliver_def)

lemma deliver_Called:
  "(\<exists>j'. deliver uri r j = (Called ans res, j'))
     = ((\<exists>u. uri = JStr u) \<and> (r = Json ans res \<or> (\<exists>b. r = Raw b res \<and> ans = JBuf b)))"
  by (cases r; cases uri) (auto simp: deliver_def)

lemma request_received:
  "(\<exists>e' a b. request L q p e = (Json a res, e') \<or> request L q p e = (Raw b res, e'))
     = (\<exists>buf rest. pending e = Reply res buf # rest \<and> decodable L (Reply res buf))"
  by (auto simp: request_def Let_def split: list.splits outcome.splits option.splits if_splits)

lemma transport_nonce:
  assumes "request L uri p e = (r, e')" and "deliver uri r j = (a, j')"
  shows "last_nonce j'
           = (case a of Called ans res \<Rightarrow> header_of res ''replay-nonce'' | _ \<Rightarrow> last_nonce j)
       \<and> ((\<exists>ans res. a = Called ans res)
            = (\<exists>u out rest. uri = JStr u \<and> pending e = out # rest \<and> decodable L out))
       \<and> (\<forall>ans res. a = Called ans res \<and> headers res ''replay-nonce'' = None
            \<longrightarrow> last_nonce j' = JUndef)
       \<and> (\<forall>ans res. a = Called ans res \<longrightarrow> (\<exists>buf rest. pending e = Reply res buf # rest))"
proof -
  have 1: "last_nonce j'
      = (case a of Called ans res \<Rightarrow> header_of res ''replay-nonce'' | _ \<Rightarrow> last_nonce j)"
    using assms(2) by (rule deliver_nonce)
  have 4: "\<exists>buf rest. pending e = Reply res buf # rest \<and> decodable L (Reply res buf)"
    if "a = Called ans res" for ans res
  proof -
    from that assms(2) have "r = Json ans res \<or> (\<exists>b. r = Raw b res \<and> ans = JBuf b)"
      using deliver_Called [of uri r j ans res] by auto
    with assms(1) show ?thesis
      using request_received [of L uri p e res] by auto
  qed
  have u: "\<exists>u. uri = JStr u" if "a = Called ans res" for ans res
    using that assms(2) deliver_Called [of uri r j ans res] by auto
  have converse: "\<exists>ans res. a = Called ans res"
    if "uri = JStr u" "pending e = out # rest" "decodable L out" for u out rest
  proof -
    from that(3) obtain res buf where out: "out = Reply res buf"
      by (cases out) auto
    with that assms(1) have "(\<exists>x. r = Json x res) \<or> (\<exists>x. r = Raw x res)"
      using request_received [of L uri p e res] by auto
    with that(1) assms(2) show ?thesis
      by (auto simp: deliver_def)
  qed
  have 2: "(\<exists>ans res. a = Called ans res)
            = (\<exists>u out rest. uri = JStr u \<and> pending e = out # rest \<and> decodable L out)"
  proof (rule iffI)
    assume "\<exists>ans res. a = Called ans res"
    then obtain ans res where c: "a = Called ans res"
      by blast
    from u [OF c] 4 [OF c] show "\<exists>u out rest. uri = JStr u \<and> pending e = out # rest \<and> decodable L out"
      by blast
  next
    assume "\<exists>u out rest. uri = JStr u \<and> pending e = out # rest \<and> decodable L out"
    then show "\<exists>ans res. a = Called ans res"
      using converse by blast
  qed
  have 3: "last_nonce j' = JUndef"
    if "a = Called ans res \<and> headers res ''replay-nonce'' = None" for ans res
    using 1 that by (simp add: header_of_def)
  have 5: "\<exists>buf rest. pending e = Reply res buf # rest" if "a = Called ans res" for ans res
    using 4 [OF that] by blast
  show ?thesis
  proof (intro conjI allI impI)
    show "last_nonce j'
      = (case a of Called ans res \<Rightarrow> header_of res ''replay-nonce'' | _ \<Rightarrow> last_nonce j)"
      by (rule 1)
    show "(\<exists>ans res. a = Called ans res)
            = (\<exists>u out rest. uri = JStr u \<and> pending e = out # rest \<and> decodable L out)"
      by (rule 2)
    show "last_nonce j' = JUndef"
      if "a = Called ans res \<and> headers res ''replay-nonce'' = None" for ans res
      using that by (rule 3)
    show "\<exists>buf rest. pending e = Reply res buf # rest" if "a = Called ans res" for ans res
      using that by (rule 5)
  qed
qed

section \<open>Claims about the transport\<close>

text \<open>
  Claim C1, as amended. In a run of GETs and POSTs with string addresses whose answers are
  all decodable, the token that each POST sends is the one \<open>createJWT\<close> makes of the
  POST's payload, the account key and the \<open>replay-nonce\<close> of the answer to the call
  before it (the first with the nonce cached at the start); after the run the cache holds
  the \<open>replay-nonce\<close> of the last answer, whatever the status codes. Where the libraries
  keep their contracts on the headers of these tokens and the trace is empty at the start,
  the nonce read back from the header of each token sent is that \<open>replay-nonce\<close>
  (\<open>undefined\<close>, no nonce field, where the answer carried none or the cache was \<open>null\<close>);
  and if the nonces the server sends are pairwise different and differ from the one cached
  at the start, no nonce is in the tokens of two POSTs.
\<close>

theorem nonce_freshness_delivered:
  assumes "\<forall>c \<in> set cs. string_uri c"
    and "length cs \<le> length (pending e)"
    and "\<forall>out \<in> set (take (length cs) (pending e)). decodable L out"
  shows "sent_tokens (trace (snd (run L cs (j, e))))
           = sent_tokens (trace e)
             @ map (\<lambda>(n, p). createJWT L n p ''RS256'' (private_pem j) (public_jwk j))
                 (expected_posts (last_nonce j) cs (pending e))
       \<and> last_nonce (fst (run L cs (j, e)))
           = last (last_nonce j # map reply_nonce (take (length cs) (pending e)))
       \<and> (sent_tokens (trace e) = []
            \<and> (\<forall>n \<in> set (map fst (expected_posts (last_nonce j) cs (pending e))).
                  reads_back L decode n (public_jwk j))
          \<longrightarrow> map (token_nonce L decode) (sent_tokens (trace (snd (run L cs (j, e)))))
                = map (\<lambda>(n, p). Some (if n = JNull then JUndef else n))
                    (expected_posts (last_nonce j) cs (pending e))
              \<and> (distinct (filter typeof_string
                     (last_nonce j # map reply_nonce (take (length cs) (pending e))))
                  \<longrightarrow> distinct (filter string_nonce
                        (map (token_nonce L decode) (sent_tokens (trace (snd (run L cs (j, e)))))))))"
proof -
  let ?xs = "expected_posts (last_nonce j) cs (pending e)"
  let ?sent = "sent_tokens (trace (snd (run L cs (j, e))))"
  have sent: "?sent = sent_tokens (trace e)
      @ map (\<lambda>(n, p). createJWT L n p ''RS256'' (private_pem j) (public_jwk j)) ?xs"
    and cache: "last_nonce (fst (run L cs (j, e)))
           = last (last_nonce j # map reply_nonce (take (length cs) (pending e)))"
    using run_sent [OF assms, of j] by simp_all
  have read: "map (token_nonce L decode) ?sent
      = map (\<lambda>(n, p). Some (if n = JNull then JUndef else n)) ?xs"
    if "sent_tokens (trace e) = []"
      and "\<forall>n \<in> set (map fst ?xs). reads_back L decode n (public_jwk j)"
    using sent that(1) run_token_nonces [OF that(2), of "private_pem j"] by simp
  have fresh: "distinct (filter string_nonce (map (token_nonce L decode) ?sent))"
    if "sent_tokens (trace e) = []"
      and "\<forall>n \<in> set (map fst ?xs). reads_back L decode n (public_jwk j)"
      and "distinct (filter typeof_string
             (last_nonce j # map reply_nonce (take (length cs) (pending e))))"
  proof -
    have "distinct (filter typeof_string (map fst ?xs))"
      using that(3) by (rule expected_posts_distinct)
    then show ?thesis
      unfolding read [OF that(1,2)] string_nonce_present by (simp add: distinct_map)
  qed
  from sent cache read fresh show ?thesis
    by blast
qed

theorem nonce_freshness_delivered_witness:
  "map (token_nonce (double [jwt_header (JStr ''n1'') ''RS256'' example_jwk,
                             jwt_header (JStr ''n2'') ''RS256'' example_jwk]) base64url_decode)
     (sent_tokens (trace (snd (run (double [jwt_header (JStr ''n1'') ''RS256'' example_jwk,
                                           jwt_header (JStr ''n2'') ''RS256'' example_jwk])
       [GET example_uri, POST example_uri (JObj [(''resource'', JStr ''new-reg'')]),
        POST example_uri (JObj [(''resource'', JStr ''new-authz'')])]
       (keyed_client,
        \<lparr>pending = [nonce_reply 200 ''n1'', nonce_reply 201 ''n2'', nonce_reply 400 ''n3''],
         trace = []\<rparr>)))))
     = [Some (JStr ''n1''), Some (JStr ''n2'')]
   \<and> last_nonce (fst (run (double [jwt_header (JStr ''n1'') ''RS256'' example_jwk,
                                   jwt_header (JStr ''n2'') ''RS256'' example_jwk])
       [GET example_uri, POST example_uri (JObj [(''resource'', JStr ''new-reg'')]),
        POST example_uri (JObj [(''resource'', JStr ''new-authz'')])]
       (keyed_client,
        \<lparr>pending = [nonce_reply 200 ''n1'', nonce_reply 201 ''n2'', nonce_reply 400 ''n3''],
         trace = []\<rparr>)))
     = JStr ''n3''"
proof -
  let ?L = "double [jwt_header (JStr ''n1'') ''RS256'' example_jwk,
                    jwt_header (JStr ''n2'') ''RS256'' example_jwk]"
  let ?cs = "[GET example_uri, POST example_uri (JObj [(''resource'', JStr ''new-reg'')]),
        POST example_uri (JObj [(''resource'', JStr ''new-authz'')])]"
  let ?e = "\<lparr>pending = [nonce_reply 200 ''n1'', nonce_reply 201 ''n2'', nonce_reply 400 ''n3''],
         trace = []\<rparr>"
  have 1: "\<forall>c \<in> set ?cs. string_uri c"
    by (simp add: example_uri_def)
  have 2: "length ?cs \<le> length (pending ?e)"
    by simp
  have 3: "\<forall>out \<in> set (take (length ?cs) (pending ?e)). decodable ?L out"
    by (simp add: nonce_reply_def isJSON_def)
  have 4: "expected_posts (last_nonce keyed_client) ?cs (pending ?e)
      = [(JStr ''n1'', JObj [(''resource'', JStr ''new-reg'')]),
         (JStr ''n2'', JObj [(''resource'', JStr ''new-authz'')])]"
    by (simp add: nonce_reply_def header_of_def)
  have 5: "public_jwk keyed_client = example_jwk"
    by (simp add: public_jwk_def keyed_client_def)
  have 6: "reads_back ?L base64url_decode (JStr ''n1'') example_jwk"
    by code_simp
  have 7: "reads_back ?L base64url_decode (JStr ''n2'') example_jwk"
    by code_simp
  have 8: "sent_tokens (trace ?e) = []
      \<and> (\<forall>n \<in> set (map fst (expected_posts (last_nonce keyed_client) ?cs (pending ?e))).
            reads_back ?L base64url_decode n (public_jwk keyed_client))"
    unfolding 4 5 using 6 7 by simp
  note run = nonce_freshness_delivered [OF 1 2 3, of keyed_client base64url_decode]
  have cache: "last_nonce (fst (run ?L ?cs (keyed_client, ?e)))
      = last (last_nonce keyed_client # map reply_nonce (take (length ?cs) (pending ?e)))"
    using run by (rule conjunct1 [OF conjunct2])
  have "sent_tokens (trace ?e) = []
      \<and> (\<forall>n \<in> set (map fst (expected_posts (last_nonce keyed_client) ?cs (pending ?e))).
            reads_back ?L base64url_decode n (public_jwk keyed_client))
    \<longrightarrow> map (token_nonce ?L base64url_decode) (sent_tokens (trace (snd (run ?L ?cs (keyed_client, ?e)))))
          = map (\<lambda>(n, p). Some (if n = JNull then JUndef else n))
              (expected_posts (last_nonce keyed_client) ?cs (pending ?e))
        \<and> (distinct (filter typeof_string
               (last_nonce keyed_client # map reply_nonce (take (length ?cs) (pending ?e))))
            \<longrightarrow> distinct (filter string_nonce
                  (map (token_nonce ?L base64url_decode)
                     (sent_tokens (trace (snd (run ?L ?cs (keyed_client, ?e))))))))"
    using run by (rule conjunct2 [OF conjunct2])
  with 8 have read: "map (token_nonce ?L base64url_decode)
        (sent_tokens (trace (snd (run ?L ?cs (keyed_client, ?e)))))
      = map (\<lambda>(n, p). Some (if n = JNull then JUndef else n))
          (expected_posts (last_nonce keyed_client) ?cs (pending ?e))"
    by blast
  show ?thesis
    unfolding read cache 4 by (simp add: nonce_reply_def header_of_def)
qed

text \<open>
  The claim as stated fails. A POST whose answer arrives announced as JSON with a body
  that \<open>JSON.parse\<close> rejects ends in the error callback, which \<open>post\<close> passes on
  unwrapped: the cache keeps the nonce the POST has just used, although the answer
  carried a new one, and the token of the next POST carries the same nonce.
\<close>

theorem nonce_reused_after_undecodable_reply:
  "sent_tokens (trace (snd (run (double [jwt_header (JStr ''n0'') ''RS256'' example_jwk])
       [POST example_uri (JObj [(''resource'', JStr ''new-reg'')]),
        POST example_uri (JObj [(''resource'', JStr ''new-authz'')])]
       (keyed_client\<lparr>last_nonce := JStr ''n0''\<rparr>,
        \<lparr>pending = [truncated_reply ''n1'', nonce_reply 200 ''n2''], trace = []\<rparr>))))
     = [createJWT (double [jwt_header (JStr ''n0'') ''RS256'' example_jwk]) (JStr ''n0'')
          (JObj [(''resource'', JStr ''new-reg'')]) ''RS256'' (JStr ''pem'') example_jwk,
        createJWT (double [jwt_header (JStr ''n0'') ''RS256'' example_jwk]) (JStr ''n0'')
          (JObj [(''resource'', JStr ''new-authz'')]) ''RS256'' (JStr ''pem'') example_jwk]
   \<and> map (token_nonce (double [jwt_header (JStr ''n0'') ''RS256'' example_jwk]) base64url_decode)
       (sent_tokens (trace (snd (run (double [jwt_header (JStr ''n0'') ''RS256'' example_jwk])
         [POST example_uri (JObj [(''resource'', JStr ''new-reg'')]),
          POST example_uri (JObj [(''resource'', JStr ''new-authz'')])]
         (keyed_client\<lparr>last_nonce := JStr ''n0''\<rparr>,
          \<lparr>pending = [truncated_reply ''n1'', nonce_reply 200 ''n2''], trace = []\<rparr>)))))
     = [Some (JStr ''n0''), Some (JStr ''n0'')]"
proof -
  let ?L = "double [jwt_header (JStr ''n0'') ''RS256'' example_jwk]"
  have 1: "sent_tokens (trace (snd (run ?L
       [POST example_uri (JObj [(''resource'', JStr ''new-reg'')]),
        POST example_uri (JObj [(''resource'', JStr ''new-authz'')])]
       (keyed_client\<lparr>last_nonce := JStr ''n0''\<rparr>,
        \<lparr>pending = [truncated_reply ''n1'', nonce_reply 200 ''n2''], trace = []\<rparr>))))
     = [createJWT ?L (JStr ''n0'') (JObj [(''resource'', JStr ''new-reg'')]) ''RS256''
          (JStr ''pem'') example_jwk,
        createJWT ?L (JStr ''n0'') (JObj [(''resource'', JStr ''new-authz'')]) ''RS256''
          (JStr ''pem'') example_jwk]"
  proof -
    have "parse ?L ''{'' = None"
      by code_simp
    then show ?thesis
      by (simp add: post_def request_def deliver_def isJSON_def example_uri_def
          truncated_reply_def nonce_reply_def header_of_def keyed_client_def Let_def)
  qed
  have 2: "reads_back ?L base64url_decode (JStr ''n0'') example_jwk"
    by code_simp
  show ?thesis
    unfolding 1 using token_nonce_createJWT [OF 2] by simp
qed

text \<open>
  Claim C10, as amended. After a GET or a POST whose callback is called, the cache holds
  the \<open>replay-nonce\<close> header of the answer, \<open>undefined\<close> when the answer has none; in
  every other case it is unchanged. The callback is called exactly when the address is a
  string and the next outcome of the network is decodable, and then with that answer.
\<close>

theorem nonce_cache_after_request:
  assumes "r = get L uri (j, e) \<or> r = post L uri payload (j, e)"
  shows "last_nonce (fst (snd r))
           = (case fst r of Called ans res \<Rightarrow> header_of res ''replay-nonce'' | _ \<Rightarrow> last_nonce j)
       \<and> ((\<exists>ans res. fst r = Called ans res)
            = (\<exists>u out rest. uri = JStr u \<and> pending e = out # rest \<and> decodable L out))
       \<and> (\<forall>ans res. fst r = Called ans res \<and> headers res ''replay-nonce'' = None
            \<longrightarrow> last_nonce (fst (snd r)) = JUndef)
       \<and> (\<forall>ans res. fst r = Called ans res \<longrightarrow> (\<exists>buf rest. pending e = Reply res buf # rest))"
  using assms
proof
  assume g: "r = get L uri (j, e)"
  obtain x e' where 1: "request L uri None e = (x, e')"
    by (cases "request L uri None e")
  obtain a j' where 2: "deliver uri x j = (a, j')"
    by (cases "deliver uri x j")
  from g 1 2 have "r = (a, j', e')"
    by (simp add: get_def)
  with transport_nonce [OF 1 2] show ?thesis
    by (simp add: header_of_def)
next
  let ?jwt = "createJWT L (last_nonce j) payload ''RS256''
     (js_get (if instanceof_Object (key_pair j) then key_pair j else JObj []) ''private_pem'')
     (js_get (if instanceof_Object (key_pair j) then key_pair j else JObj []) ''public_jwk'')"
  assume p: "r = post L uri payload (j, e)"
  obtain x e' where 1: "request L uri (Some ?jwt) e = (x, e')"
    by (cases "request L uri (Some ?jwt) e")
  obtain a j' where 2: "deliver uri x j = (a, j')"
    by (cases "deliver uri x j")
  from p 1 2 have "r = (a, j', e')"
    by (simp add: post_def Let_def)
  with transport_nonce [OF 1 2] show ?thesis
    by (simp add: header_of_def)
qed

theorem nonce_cache_after_request_witness:
  "last_nonce (fst (snd (get (double []) example_uri
       (new_JWebClient\<lparr>last_nonce := JStr ''n0''\<rparr>,
        \<lparr>pending = [Reply \<lparr>statusCode = 204, headers = Map.empty\<rparr> []], trace = []\<rparr>))))
     = JUndef"
proof -
  let ?r = "get (double []) example_uri
       (new_JWebClient\<lparr>last_nonce := JStr ''n0''\<rparr>,
        \<lparr>pending = [Reply \<lparr>statusCode = 204, headers = Map.empty\<rparr> []], trace = []\<rparr>)"
  have 1: "?r = get (double []) example_uri
       (new_JWebClient\<lparr>last_nonce := JStr ''n0''\<rparr>,
        \<lparr>pending = [Reply \<lparr>statusCode = 204, headers = Map.empty\<rparr> []], trace = []\<rparr>)
     \<or> ?r = post (double []) example_uri JNull
       (new_JWebClient\<lparr>last_nonce := JStr ''n0''\<rparr>,
        \<lparr>pending = [Reply \<lparr>statusCode = 204, headers = Map.empty\<rparr> []], trace = []\<rparr>)"
    by simp
  have 2: "fst ?r = Called (JBuf []) \<lparr>statusCode = 204, headers = Map.empty\<rparr>"
    by (simp add: get_def request_def deliver_def isJSON_def example_uri_def Let_def)
  have 3: "last_nonce (fst (snd ?r))
      = (case fst ?r of Called ans res \<Rightarrow> header_of res ''replay-nonce''
         | _ \<Rightarrow> last_nonce (new_JWebClient\<lparr>last_nonce := JStr ''n0''\<rparr>))"
    using nonce_cache_after_request [OF 1] by (rule conjunct1)
  show ?thesis
    unfolding 3 2 by (simp add: header_of_def)
qed

text \<open>
  The claim as stated fails: an answer without \<open>replay-nonce\<close> arrives, announced as JSON
  with a body that \<open>JSON.parse\<close> rejects, and the cached nonce survives it.
\<close>

theorem cached_nonce_survives_undecodable_reply:
  "last_nonce (fst (snd (get (double []) example_uri
       (new_JWebClient\<lparr>last_nonce := JStr ''n0''\<rparr>,
        \<lparr>pending = [Reply \<lparr>statusCode = 200, headers = [''content-type'' \<mapsto> ''application/json'']\<rparr> ''{''],
         trace = []\<rparr>))))
     = JStr ''n0''
   \<and> pending (snd (snd (get (double []) example_uri
       (new_JWebClient\<lparr>last_nonce := JStr ''n0''\<rparr>,
        \<lparr>pending = [Reply \<lparr>statusCode = 200, headers = [''content-type'' \<mapsto> ''application/json'']\<rparr> ''{''],
         trace = []\<rparr>))))
     = []"
  by (simp add: get_def request_def deliver_def isJSON_def example_uri_def
      double_def parse_among_def Let_def new_JWebClient_def)

section \<open>Account creation\<close>

text \<open>The requests of a trace, each with its method and address.\<close>

fun requests :: "event list \<Rightarrow> (string \<times> string) list" where
  "requests [] = []"
| "requests (Request method uri body # tr) = (method, uri) # requests tr"
| "requests (_ # tr) = requests tr"

definition registered_client :: AcmeClient where
  \<comment> \<open>a client with an account key that has looked up the directory\<close>
  "registered_client =
     (new_AcmeClient (JStr ''https://ca.example/directory'') keyed_client)
       \<lparr>directory := JObj [(''new-reg'', JStr ''https://ca.example/acme/new-reg'')]\<rparr>"

definition created_reply :: outcome where
  "created_reply =
     Reply \<lparr>statusCode = 201, headers = [''location'' \<mapsto> ''https://ca.example/acme/reg/1'']\<rparr> []"

definition unparsable_created_reply :: outcome where
  \<comment> \<open>the same answer, announced as JSON, with a body that stops after the opening brace\<close>
  "unparsable_created_reply =
     Reply \<lparr>statusCode = 201,
            headers = [''content-type'' \<mapsto> ''application/json'',
                       ''location'' \<mapsto> ''https://ca.example/acme/reg/1'']\<rparr> ''{''"

lemma requests_append: "requests (xs @ ys) = requests xs @ requests ys"
  by (induction xs rule: requests.induct) auto

lemma post_trace:
  "trace (snd (snd (post L uri payload (j, e))))
     = trace e @ [Request ''POST'' (case uri of JStr u \<Rightarrow> u | _ \<Rightarrow> [])
                    (Some (createJWT L (last_nonce j) payload ''RS256'' (private_pem j) (public_jwk j)))]"
  by (auto simp: post_def request_def deliver_def Let_def private_pem_def public_jwk_def
      split: list.splits outcome.splits option.splits jsval.splits)

lemma post_reply:
  "fst (post L uri payload (j, e)) =
     (case pending e of
        [] \<Rightarrow> Silent
      | NetError # rest \<Rightarrow> Errored
      | Reply res buf # rest \<Rightarrow>
          if isJSON res \<and> buf \<noteq> [] then
            (case parse L buf of
               Some json \<Rightarrow> if typeof_string uri then Called json res else Errored
             | None \<Rightarrow> Errored)
          else if typeof_string uri then Called (JBuf buf) res else Crashed)"
  by (auto simp: post_def request_def deliver_def Let_def
      split: list.splits outcome.splits option.splits jsval.splits)

lemma createAccount_post:
  assumes "post L (js_get (directory c) ''new-reg'')
             (JObj [(''contact'', JArr [JStr (''mailto:'' @ address)]),
                    (''resource'', JStr ''new-reg'')]) (jWebClient c, e) = (a, j', e')"
  shows "createAccount L (JStr address) (c, e) =
     (case a of
        Called ans res \<Rightarrow>
          if statusCode res = 201 then
            (case headers res ''location'' of
               Some l \<Rightarrow> (Invoked (JStr l) NoRes, c\<lparr>jWebClient := j', regLink := JStr l\<rparr>, e')
             | None \<Rightarrow> (Invoked (JBool False) NoRes, c\<lparr>jWebClient := j'\<rparr>, e'))
          else (Invoked (JBool False) NoRes, c\<lparr>jWebClient := j'\<rparr>, e')
      | Errored \<Rightarrow> (Invoked (JBool False) NoRes, c\<lparr>jWebClient := j'\<rparr>, e')
      | Silent \<Rightarrow> (Never, c\<lparr>jWebClient := j'\<rparr>, e')
      | Crashed \<Rightarrow> (Crash, c\<lparr>jWebClient := j'\<rparr>, e'))"
  using assms
  by (cases a) (simp_all add: createAccount_def newRegistration_def via_def split: option.splits)


lemma createAccount_answer:
  "fst (createAccount L (JStr address) (c, e)) =
     (case pending e of
        [] \<Rightarrow> Never
      | NetError # rest \<Rightarrow> Invoked (JBool False) NoRes
      | Reply res buf # rest \<Rightarrow>
          if isJSON res \<and> buf \<noteq> [] \<and> parse L buf = None then Invoked (JBool False) NoRes
          else if typeof_string (js_get (directory c) ''new-reg'') then
            (if statusCode res = 201 then
               (case headers res ''location'' of
                  Some l \<Rightarrow> Invoked (JStr l) NoRes
                | None \<Rightarrow> Invoked (JBool False) NoRes)
             else Invoked (JBool False) NoRes)
          else if isJSON res \<and> buf \<noteq> [] then Invoked (JBool False) NoRes
          else Crash)"
proof -
  let ?payload = "JObj [(''contact'', JArr [JStr (''mailto:'' @ address)]),
                        (''resource'', JStr ''new-reg'')]"
  obtain a j' e' where p:
    "post L (js_get (directory c) ''new-reg'') ?payload (jWebClient c, e) = (a, j', e')"
    by (metis prod_cases3)
  have a: "a = (case pending e of
        [] \<Rightarrow> Silent
      | NetError # rest \<Rightarrow> Errored
      | Reply res buf # rest \<Rightarrow>
          if isJSON res \<and> buf \<noteq> [] then
            (case parse L buf of
               Some json \<Rightarrow> if typeof_string (js_get (directory c) ''new-reg'') then Called json res else Errored
             | None \<Rightarrow> Errored)
          else if typeof_string (js_get (directory c) ''new-reg'') then Called (JBuf buf) res else Crashed)"
    using post_reply [of L "js_get (directory c) ''new-reg''" ?payload "jWebClient c" e] p by simp
  show ?thesis
    unfolding createAccount_post [OF p] a
    by (simp split: list.split outcome.split option.split)
qed

lemma createAccount_state:
  "trace (snd (snd (createAccount L (JStr address) (c, e))))
     = trace e @ [Request ''POST'' (case js_get (directory c) ''new-reg'' of JStr u \<Rightarrow> u | _ \<Rightarrow> [])
         (Some (createJWT L (last_nonce (jWebClient c))
                  (JObj [(''contact'', JArr [JStr (''mailto:'' @ address)]),
                         (''resource'', JStr ''new-reg'')])
                  ''RS256'' (private_pem (jWebClient c)) (public_jwk (jWebClient c))))]
   \<and> directory (fst (snd (createAccount L (JStr address) (c, e)))) = directory c
   \<and> regLink (fst (snd (createAccount L (JStr address) (c, e))))
       = (case fst (createAccount L (JStr address) (c, e)) of
            Invoked (JStr l) x \<Rightarrow> JStr l
          | _ \<Rightarrow> regLink c)"
proof -
  let ?payload = "JObj [(''contact'', JArr [JStr (''mailto:'' @ address)]),
                        (''resource'', JStr ''new-reg'')]"
  obtain a j' e' where p:
    "post L (js_get (directory c) ''new-reg'') ?payload (jWebClient c, e) = (a, j', e')"
    by (metis prod_cases3)
  have t: "trace e' = trace e @ [Request ''POST'' (case js_get (directory c) ''new-reg'' of JStr u \<Rightarrow> u | _ \<Rightarrow> [])
         (Some (createJWT L (last_nonce (jWebClient c)) ?payload
                  ''RS256'' (private_pem (jWebClient c)) (public_jwk (jWebClient c))))]"
    using post_trace [of L "js_get (directory c) ''new-reg''" ?payload "jWebClient c" e] p by simp
  show ?thesis
    unfolding createAccount_post [OF p] using t
    by (cases a) (simp_all split: option.split)
qed

text \<open>
  Claim C7, as amended. \<open>createAccount(email)\<close> with a string makes one request and does
  not fetch the directory: it sends, to the address that the directory cached in the
  client gives for \<open>new-reg\<close>, the token that \<open>createJWT\<close> makes of
  \<open>{contact: ["mailto:" + email], resource: "new-reg"}\<close>, the cached nonce and the
  account key, and leaves the cached directory as it is. It calls back with a location
  exactly when that address is a string and the answer reaches the callback of the
  transport (it arrived, and its body, if announced as JSON and not empty, parses) with
  status 201 and that \<open>location\<close> header; it has then stored the location as
  registration link. It never calls back exactly when the request is never answered. It
  ends on an uncaught exception exactly when the address is not a string and an answer
  arrives that is not taken as JSON. In every other case it calls back \<open>false\<close>. Unless
  it calls back with a location, the registration link is unchanged. With an email that
  is not a string it calls back \<open>false\<close> and sends nothing.
\<close>

theorem createAccount_success_iff:
  assumes "r = createAccount L (JStr address) (c, e)"
  shows "trace (snd (snd r))
       = trace e @ [Request ''POST'' (case js_get (directory c) ''new-reg'' of JStr u \<Rightarrow> u | _ \<Rightarrow> [])
           (Some (createJWT L (last_nonce (jWebClient c))
                    (JObj [(''contact'', JArr [JStr (''mailto:'' @ address)]),
                           (''resource'', JStr ''new-reg'')])
                    ''RS256'' (private_pem (jWebClient c)) (public_jwk (jWebClient c))))]
    \<and> directory (fst (snd r)) = directory c
    \<and> (fst r = Invoked (JStr location) NoRes)
         = (typeof_string (js_get (directory c) ''new-reg'')
            \<and> (\<exists>res buf rest. pending e = Reply res buf # rest \<and> decodable L (Reply res buf)
                  \<and> statusCode res = 201 \<and> headers res ''location'' = Some location))
    \<and> (fst r = Invoked (JStr location) NoRes \<longrightarrow> regLink (fst (snd r)) = JStr location)
    \<and> (fst r = Never) = (pending e = [])
    \<and> (fst r = Crash)
         = (\<not> typeof_string (js_get (directory c) ''new-reg'')
            \<and> (\<exists>res buf rest. pending e = Reply res buf # rest \<and> \<not> (isJSON res \<and> buf \<noteq> [])))
    \<and> (fst r = Invoked (JBool False) NoRes \<or> fst r = Never \<or> fst r = Crash
        \<or> (\<exists>l. fst r = Invoked (JStr l) NoRes))
    \<and> ((\<forall>l. fst r \<noteq> Invoked (JStr l) NoRes) \<longrightarrow> regLink (fst (snd r)) = regLink c)
    \<and> (\<not> typeof_string email
          \<longrightarrow> createAccount L email (c, e) = (Invoked (JBool False) NoRes, c, e))"
proof -
  note answer = createAccount_answer [of L address c e]
  note state = createAccount_state [of L address c e]
  have 1: "(fst r = Invoked (JStr location) NoRes)
         = (typeof_string (js_get (directory c) ''new-reg'')
            \<and> (\<exists>res buf rest. pending e = Reply res buf # rest \<and> decodable L (Reply res buf)
                  \<and> statusCode res = 201 \<and> headers res ''location'' = Some location))"
    unfolding assms answer
    by (auto split: list.splits outcome.splits option.splits if_splits)
  have 2: "fst r = Invoked (JStr location) NoRes \<longrightarrow> regLink (fst (snd r)) = JStr location"
    using state unfolding assms by simp
  have 3: "(fst r = Never) = (pending e = [])"
    unfolding assms answer
    by (auto split: list.splits outcome.splits option.splits if_splits)
  have 4: "(fst r = Crash)
         = (\<not> typeof_string (js_get (directory c) ''new-reg'')
            \<and> (\<exists>res buf rest. pending e = Reply res buf # rest \<and> \<not> (isJSON res \<and> buf \<noteq> [])))"
    unfolding assms answer
    by (auto split: list.splits outcome.splits option.splits if_splits)
  have 5: "fst r = Invoked (JBool False) NoRes \<or> fst r = Never \<or> fst r = Crash
        \<or> (\<exists>l. fst r = Invoked (JStr l) NoRes)"
    unfolding assms answer
    by (auto split: list.splits outcome.splits option.splits if_splits)
  have 6: "(\<forall>l. fst r \<noteq> Invoked (JStr l) NoRes) \<longrightarrow> regLink (fst (snd r)) = regLink c"
  proof
    assume n: "\<forall>l. fst r \<noteq> Invoked (JStr l) NoRes"
    from 5 n have "fst r = Invoked (JBool False) NoRes \<or> fst r = Never \<or> fst r = Crash"
      by blast
    then show "regLink (fst (snd r)) = regLink c"
      using state unfolding assms by auto
  qed
  have 7: "\<not> typeof_string email
          \<longrightarrow> createAccount L email (c, e) = (Invoked (JBool False) NoRes, c, e)"
    by (cases email) (simp_all add: createAccount_def)
  from state 1 2 3 4 5 6 7 show ?thesis
    unfolding assms by blast
qed


theorem createAccount_success_iff_witness:
  "fst (createAccount (double []) (JStr ''admin@example.org'')
          (registered_client, \<lparr>pending = [created_reply], trace = []\<rparr>))
     = Invoked (JStr ''https://ca.example/acme/reg/1'') NoRes
   \<and> regLink (fst (snd (createAccount (double []) (JStr ''admin@example.org'')
          (registered_client, \<lparr>pending = [created_reply], trace = []\<rparr>))))
     = JStr ''https://ca.example/acme/reg/1''
   \<and> trace (snd (snd (createAccount (double []) (JStr ''admin@example.org'')
          (registered_client, \<lparr>pending = [created_reply], trace = []\<rparr>))))
     = [Request ''POST'' ''https://ca.example/acme/new-reg''
          (Some (createJWT (double []) JNull
                   (JObj [(''contact'', JArr [JStr ''mailto:admin@example.org'']),
                          (''resource'', JStr ''new-reg'')])
                   ''RS256'' (JStr ''pem'') example_jwk))]"
proof -
  let ?e = "\<lparr>pending = [created_reply], trace = []\<rparr>"
  let ?r = "createAccount (double []) (JStr ''admin@example.org'') (registered_client, ?e)"
  note account = createAccount_success_iff [OF refl, where L = "double []"
      and address = "''admin@example.org''" and c = registered_client and e = ?e
      and location = "''https://ca.example/acme/reg/1''" and email = JUndef]
  have "typeof_string (js_get (directory registered_client) ''new-reg'')
      \<and> (\<exists>res buf rest. pending ?e = Reply res buf # rest \<and> decodable (double []) (Reply res buf)
            \<and> statusCode res = 201 \<and> headers res ''location'' = Some ''https://ca.example/acme/reg/1'')"
    by (simp add: registered_client_def new_AcmeClient_def created_reply_def isJSON_def)
  with account have 1: "fst ?r = Invoked (JStr ''https://ca.example/acme/reg/1'') NoRes"
    by blast
  with account have 2: "regLink (fst (snd ?r)) = JStr ''https://ca.example/acme/reg/1''"
    by blast
  have "trace (snd (snd ?r))
       = trace ?e @ [Request ''POST'' (case js_get (directory registered_client) ''new-reg'' of JStr u \<Rightarrow> u | _ \<Rightarrow> [])
           (Some (createJWT (double []) (last_nonce (jWebClient registered_client))
                    (JObj [(''contact'', JArr [JStr (''mailto:'' @ ''admin@example.org'')]),
                           (''resource'', JStr ''new-reg'')])
                    ''RS256'' (private_pem (jWebClient registered_client))
                    (public_jwk (jWebClient registered_client))))]"
    using account by (rule conjunct1)
  then have 3: "trace (snd (snd ?r))
     = [Request ''POST'' ''https://ca.example/acme/new-reg''
          (Some (createJWT (double []) JNull
                   (JObj [(''contact'', JArr [JStr ''mailto:admin@example.org'']),
                          (''resource'', JStr ''new-reg'')])
                   ''RS256'' (JStr ''pem'') example_jwk))]"
    by (simp add: registered_client_def new_AcmeClient_def keyed_client_def private_pem_def
        public_jwk_def)
  from 1 2 3 show ?thesis
    by blast
qed

text \<open>
  The claim as stated fails: \<open>createAccount\<close> does not sequence a directory lookup. Its
  comment says that it assumes the lookup has occurred; the command line does the lookup
  before it calls \<open>createAccount\<close>. On a client with a cached directory the account is
  created by a single POST. And an answer with status 201 and a \<open>location\<close> header does
  not make it succeed when the transport hands the answer to the error callback: announced
  as JSON with a body that \<open>JSON.parse\<close> rejects, it ends in \<open>false\<close>.
\<close>

theorem createAccount_no_directory_request:
  "fst (createAccount (double []) (JStr ''admin@example.org'')
          (registered_client, \<lparr>pending = [created_reply], trace = []\<rparr>))
     = Invoked (JStr ''https://ca.example/acme/reg/1'') NoRes
   \<and> requests (trace (snd (snd (createAccount (double []) (JStr ''admin@example.org'')
          (registered_client, \<lparr>pending = [created_reply], trace = []\<rparr>)))))
     = [(''POST'', ''https://ca.example/acme/new-reg'')]
   \<and> fst (createAccount (double []) (JStr ''admin@example.org'')
          (registered_client, \<lparr>pending = [unparsable_created_reply], trace = []\<rparr>))
     = Invoked (JBool False) NoRes"
  by (simp add: createAccount_def newRegistration_def via_def post_def request_def deliver_def
      isJSON_def Let_def registered_client_def created_reply_def unparsable_created_reply_def
      new_AcmeClient_def double_def parse_among_def)

section \<open>Polling\<close>

text \<open>The delays of the timers of a trace, in milliseconds, added up.\<close>

fun delay :: "event list \<Rightarrow> int" where
  "delay [] = 0"
| "delay (Timer ms # tr) = ms + delay tr"
| "delay (_ # tr) = delay tr"

text \<open>
  The schedule of a poller that is told to wait \<open>n\<close> times: a GET, then a timer of
  \<open>retry * 500\<close> milliseconds, then the same with twice the factor.
\<close>

fun backoff :: "string \<Rightarrow> int \<Rightarrow> nat \<Rightarrow> event list" where
  "backoff u retry 0 = []"
| "backoff u retry (Suc n) = Request ''GET'' u None # Timer (retry * 500) # backoff u (retry * 2) n"

text \<open>
  The server answers \<open>pending\<close>: a JSON body that parses to an object whose \<open>status\<close> is
  \<open>"pending"\<close>. It answers empty: no body, and a status below 400.
\<close>

fun answers_pending :: "lib \<Rightarrow> outcome \<Rightarrow> bool" where
  "answers_pending L NetError = False"
| "answers_pending L (Reply res buf) =
     (isJSON res \<and> buf \<noteq> [] \<and>
      (case parse L buf of
         Some ans \<Rightarrow> instanceof_Object ans \<and> loose_eq (js_get ans ''status'') ''pending''
       | None \<Rightarrow> False))"

fun answers_empty :: "outcome \<Rightarrow> bool" where
  "answers_empty NetError = False"
| "answers_empty (Reply res buf) = (buf = [] \<and> statusCode res < 400)"


definition still_pending :: jsval where
  "still_pending = JObj [(''status'', JStr ''pending'')]"

definition pending_reply :: outcome where
  "pending_reply =
     Reply \<lparr>statusCode = 202, headers = [''content-type'' \<mapsto> ''application/json'']\<rparr>
       (plain_stringify still_pending)"

definition accepted_reply :: outcome where
  "accepted_reply = Reply \<lparr>statusCode = 202, headers = Map.empty\<rparr> []"


lemma delay_append: "delay (xs @ ys) = delay xs + delay ys"
  by (induction xs rule: delay.induct) auto

lemma get_trace:
  assumes "via (get L uri) (c, e) = (a, c', e')"
  shows "\<exists>q. trace e' = trace e @ [Request ''GET'' q None]"
  using assms
  by (auto simp: via_def get_def request_def Let_def
      split: prod.splits list.splits outcome.splits option.splits if_splits)

lemma pollUntilValid_stop:
  "128 < r \<Longrightarrow> pollUntilValid L uri (Some r) s = (Invoked (JBool False) NoRes, s)"
  by (simp add: pollUntilValid.simps [of L uri "Some r" s])

lemma pollUntilValid_None: "pollUntilValid L uri None s = pollUntilValid L uri (Some 1) s"
  by (simp add: pollUntilValid.simps [of L uri None s] pollUntilValid.simps [of L uri "Some 1" s])

lemma pollUntilValid_bound:
  assumes "1 \<le> r" and "128 < r * 2 ^ k"
    and "pollUntilValid L uri (Some r) (c, e) = (a, c', e')"
  shows "length (requests (trace e')) \<le> length (requests (trace e)) + k
       \<and> delay (trace e') \<le> delay (trace e) + 500 * r * (2 ^ k - 1)"
  using assms
proof (induction k arbitrary: r c e)
  case 0
  then show ?case
    by (simp add: pollUntilValid_stop)
next
  case (Suc k)
  have nonneg: "0 \<le> 500 * r * (2 ^ Suc k - 1)"
    using Suc.prems(1) by simp
  show ?case
  proof (cases "128 < r")
    case True
    with Suc.prems nonneg show ?thesis
      by (simp add: pollUntilValid_stop)
  next
    case False
    obtain x c1 e1 where g: "via (get L uri) (c, e) = (x, c1, e1)"
      by (metis prod_cases3)
    then obtain q where t: "trace e1 = trace e @ [Request ''GET'' q None]"
      using get_trace by blast
    show ?thesis
    proof (cases "\<exists>ans res. x = Called ans res \<and> instanceof_Object ans
        \<and> loose_eq (js_get ans ''status'') ''pending''")
      case True
      then obtain ans res where x: "x = Called ans res" "instanceof_Object ans"
        "loose_eq (js_get ans ''status'') ''pending''"
        by blast
      let ?e = "e1\<lparr>trace := trace e1 @ [Timer (r * 500)]\<rparr>"
      from Suc.prems False g x have rec: "pollUntilValid L uri (Some (r * 2)) (c1, ?e) = (a, c', e')"
        by (simp add: pollUntilValid.simps [of L uri "Some r" "(c, e)"])
      have "1 \<le> r * 2" "128 < r * 2 * 2 ^ k"
        using Suc.prems by (simp_all add: mult.assoc)
      from Suc.IH [OF this rec]
      have "length (requests (trace e')) \<le> length (requests (trace ?e)) + k"
        and "delay (trace e') \<le> delay (trace ?e) + 500 * (r * 2) * (2 ^ k - 1)"
        by simp_all
      moreover have "500 * r + 500 * (r * 2) * (2 ^ k - 1) = 500 * r * (2 ^ Suc k - 1)"
        by (simp add: algebra_simps)
      ultimately show ?thesis
        using t by (simp add: requests_append delay_append)
    next
      case False
      with Suc.prems \<open>\<not> 128 < r\<close> g have "e' = e1"
        by (auto simp: pollUntilValid.simps [of L uri "Some r" "(c, e)"]
            split: reply.splits if_splits)
      with t nonneg show ?thesis
        by (simp add: requests_append delay_append)
    qed
  qed
qed

lemma pollUntilIssued_stop:
  "128 < r \<Longrightarrow> pollUntilIssued L uri (Some r) s = (Invoked (JBool False) NoRes, s)"
  by (simp add: pollUntilIssued.simps [of L uri "Some r" s])

lemma pollUntilIssued_None: "pollUntilIssued L uri None s = pollUntilIssued L uri (Some 1) s"
  by (simp add: pollUntilIssued.simps [of L uri None s] pollUntilIssued.simps [of L uri "Some 1" s])

lemma pollUntilIssued_bound:
  assumes "1 \<le> r" and "128 < r * 2 ^ k"
    and "pollUntilIssued L uri (Some r) (c, e) = (a, c', e')"
  shows "length (requests (trace e')) \<le> length (requests (trace e)) + k
       \<and> delay (trace e') \<le> delay (trace e) + 500 * r * (2 ^ k - 1)"
  using assms
proof (induction k arbitrary: r c e)
  case 0
  then show ?case
    by (simp add: pollUntilIssued_stop)
next
  case (Suc k)
  have nonneg: "0 \<le> 500 * r * (2 ^ Suc k - 1)"
    using Suc.prems(1) by simp
  show ?case
  proof (cases "128 < r")
    case True
    with Suc.prems nonneg show ?thesis
      by (simp add: pollUntilIssued_stop)
  next
    case False
    obtain x c1 e1 where g: "via (get L uri) (c, e) = (x, c1, e1)"
      by (metis prod_cases3)
    then obtain q where t: "trace e1 = trace e @ [Request ''GET'' q None]"
      using get_trace by blast
    show ?thesis
    proof (cases "\<exists>ans res. x = Called ans res
        \<and> \<not> (case ans of JBuf b \<Rightarrow> b \<noteq> [] | _ \<Rightarrow> False) \<and> statusCode res < 400")
      case True
      then obtain ans res where x: "x = Called ans res"
        "\<not> (case ans of JBuf b \<Rightarrow> b \<noteq> [] | _ \<Rightarrow> False)" "statusCode res < 400"
        by blast
      let ?e = "e1\<lparr>trace := trace e1 @ [Timer (r * 500)]\<rparr>"
      from Suc.prems False g x have rec: "pollUntilIssued L uri (Some (r * 2)) (c1, ?e) = (a, c', e')"
        by (simp add: pollUntilIssued.simps [of L uri "Some r" "(c, e)"])
      have "1 \<le> r * 2" "128 < r * 2 * 2 ^ k"
        using Suc.prems by (simp_all add: mult.assoc)
      from Suc.IH [OF this rec]
      have "length (requests (trace e')) \<le> length (requests (trace ?e)) + k"
        and "delay (trace e') \<le> delay (trace ?e) + 500 * (r * 2) * (2 ^ k - 1)"
        by simp_all
      moreover have "500 * r + 500 * (r * 2) * (2 ^ k - 1) = 500 * r * (2 ^ Suc k - 1)"
        by (simp add: algebra_simps)
      ultimately show ?thesis
        using t by (simp add: requests_append delay_append)
    next
      case False
      with Suc.prems \<open>\<not> 128 < r\<close> g have "e' = e1"
        by (auto simp: pollUntilIssued.simps [of L uri "Some r" "(c, e)"]
            split: reply.splits if_splits)
      with t nonneg show ?thesis
        by (simp add: requests_append delay_append)
    qed
  qed
qed

lemma get_pending_answer:
  assumes "pending e = out # rest" and "answers_pending L out"
  shows "\<exists>ans res c'. via (get L (JStr u)) (c, e)
           = (Called ans res, c', e\<lparr>trace := trace e @ [Request ''GET'' u None], pending := rest\<rparr>)
         \<and> instanceof_Object ans \<and> loose_eq (js_get ans ''status'') ''pending''"
  using assms
  by (cases out)
     (auto simp: via_def get_def request_def deliver_def Let_def split: option.splits)

lemma get_empty_answer:
  assumes "pending e = out # rest" and "answers_empty out"
  shows "\<exists>res c'. via (get L (JStr u)) (c, e)
           = (Called (JBuf []) res, c', e\<lparr>trace := trace e @ [Request ''GET'' u None], pending := rest\<rparr>)
         \<and> statusCode res < 400"
  using assms
  by (cases out)
     (auto simp: via_def get_def request_def deliver_def Let_def split: option.splits)

lemma pollUntilValid_pending:
  assumes "pending e = outs @ rest" and "\<forall>out \<in> set outs. answers_pending L out"
    and "1 \<le> r" and "r * 2 ^ length outs \<le> 256"
  shows "\<exists>c'. pollUntilValid L (JStr u) (Some r) (c, e)
     = pollUntilValid L (JStr u) (Some (r * 2 ^ length outs))
         (c', e\<lparr>trace := trace e @ backoff u r (length outs), pending := rest\<rparr>)"
  using assms
proof (induction outs arbitrary: r c e)
  case Nil
  then have "e\<lparr>trace := trace e @ backoff u r (length ([] :: outcome list)), pending := rest\<rparr> = e"
    by (cases e) simp
  then show ?case
    by (intro exI [of _ c]) simp
next
  case (Cons out outs)
  from Cons.prems have p: "pending e = out # (outs @ rest)" and a: "answers_pending L out"
    by simp_all
  have "(1::int) \<le> 2 ^ length outs"
    by simp
  with Cons.prems(3) have "r * 2 * 1 \<le> r * 2 * 2 ^ length outs"
    by (intro mult_left_mono) simp_all
  with Cons.prems(4) have small: "\<not> 128 < r"
    by (simp add: mult.assoc)
  let ?e1 = "e\<lparr>trace := trace e @ [Request ''GET'' u None], pending := outs @ rest\<rparr>"
  from get_pending_answer [OF p a, of u c] obtain ans res c1 where
    g: "via (get L (JStr u)) (c, e) = (Called ans res, c1, ?e1)"
    and o: "instanceof_Object ans" "loose_eq (js_get ans ''status'') ''pending''"
    by blast
  let ?e2 = "?e1\<lparr>trace := trace ?e1 @ [Timer (r * 500)]\<rparr>"
  from small Cons.prems(3) g o
  have step: "pollUntilValid L (JStr u) (Some r) (c, e) = pollUntilValid L (JStr u) (Some (r * 2)) (c1, ?e2)"
    by (simp add: pollUntilValid.simps [of L "JStr u" "Some r" "(c, e)"])
  have "pending ?e2 = outs @ rest" "\<forall>out \<in> set outs. answers_pending L out"
    "1 \<le> r * 2" "r * 2 * 2 ^ length outs \<le> 256"
    using Cons.prems by (simp_all add: mult.assoc)
  from Cons.IH [OF this, of c1] obtain c' where
    "pollUntilValid L (JStr u) (Some (r * 2)) (c1, ?e2)
     = pollUntilValid L (JStr u) (Some (r * 2 * 2 ^ length outs))
         (c', ?e2\<lparr>trace := trace ?e2 @ backoff u (r * 2) (length outs), pending := rest\<rparr>)"
    by blast
  with step show ?case
    by (intro exI [of _ c']) (simp add: mult.assoc)
qed

lemma pollUntilIssued_pending:
  assumes "pending e = outs @ rest" and "\<forall>out \<in> set outs. answers_empty out"
    and "1 \<le> r" and "r * 2 ^ length outs \<le> 256"
  shows "\<exists>c'. pollUntilIssued L (JStr u) (Some r) (c, e)
     = pollUntilIssued L (JStr u) (Some (r * 2 ^ length outs))
         (c', e\<lparr>trace := trace e @ backoff u r (length outs), pending := rest\<rparr>)"
  using assms
proof (induction outs arbitrary: r c e)
  case Nil
  then have "e\<lparr>trace := trace e @ backoff u r (length ([] :: outcome list)), pending := rest\<rparr> = e"
    by (cases e) simp
  then show ?case
    by (intro exI [of _ c]) simp
next
  case (Cons out outs)
  from Cons.prems have p: "pending e = out # (outs @ rest)" and a: "answers_empty out"
    by simp_all
  have "(1::int) \<le> 2 ^ length outs"
    by simp
  with Cons.prems(3) have "r * 2 * 1 \<le> r * 2 * 2 ^ length outs"
    by (intro mult_left_mono) simp_all
  with Cons.prems(4) have small: "\<not> 128 < r"
    by (simp add: mult.assoc)
  let ?e1 = "e\<lparr>trace := trace e @ [Request ''GET'' u None], pending := outs @ rest\<rparr>"
  from get_empty_answer [OF p a, of L u c] obtain res c1 where
    g: "via (get L (JStr u)) (c, e) = (Called (JBuf []) res, c1, ?e1)"
    and o: "statusCode res < 400"
    by blast
  let ?e2 = "?e1\<lparr>trace := trace ?e1 @ [Timer (r * 500)]\<rparr>"
  from small Cons.prems(3) g o
  have step: "pollUntilIssued L (JStr u) (Some r) (c, e) = pollUntilIssued L (JStr u) (Some (r * 2)) (c1, ?e2)"
    by (simp add: pollUntilIssued.simps [of L "JStr u" "Some r" "(c, e)"])
  have "pending ?e2 = outs @ rest" "\<forall>out \<in> set outs. answers_empty out"
    "1 \<le> r * 2" "r * 2 * 2 ^ length outs \<le> 256"
    using Cons.prems by (simp_all add: mult.assoc)
  from Cons.IH [OF this, of c1] obtain c' where
    "pollUntilIssued L (JStr u) (Some (r * 2)) (c1, ?e2)
     = pollUntilIssued L (JStr u) (Some (r * 2 * 2 ^ length outs))
         (c', ?e2\<lparr>trace := trace ?e2 @ backoff u (r * 2) (length outs), pending := rest\<rparr>)"
    by blast
  with step show ?case
    by (intro exI [of _ c']) (simp add: mult.assoc)
qed

lemma backoff_eight:
  "backoff u 1 8 =
     [Request ''GET'' u None, Timer 500, Request ''GET'' u None, Timer 1000,
      Request ''GET'' u None, Timer 2000, Request ''GET'' u None, Timer 4000,
      Request ''GET'' u None, Timer 8000, Request ''GET'' u None, Timer 16000,
      Request ''GET'' u None, Timer 32000, Request ''GET'' u None, Timer 64000]"
  by (simp add: eval_nat_numeral)

lemma pollUntilValid_perpetual:
  assumes "pending e = outs @ rest" and "length outs = 8"
    and "\<forall>out \<in> set outs. answers_pending L out"
  shows "fst (pollUntilValid L (JStr u) None (c, e)) = Invoked (JBool False) NoRes
       \<and> trace (snd (snd (pollUntilValid L (JStr u) None (c, e)))) = trace e @ backoff u 1 8
       \<and> pending (snd (snd (pollUntilValid L (JStr u) None (c, e)))) = rest"
proof -
  have "(1::int) * 2 ^ length outs \<le> 256"
    using assms(2) by simp
  from pollUntilValid_pending [OF assms(1,3) order_refl this, of u c] assms(2)
  obtain c' where "pollUntilValid L (JStr u) (Some 1) (c, e)
     = pollUntilValid L (JStr u) (Some 256) (c', e\<lparr>trace := trace e @ backoff u 1 8, pending := rest\<rparr>)"
    by auto
  then show ?thesis
    by (simp add: pollUntilValid_None pollUntilValid_stop)
qed

lemma pollUntilIssued_perpetual:
  assumes "pending e = outs @ rest" and "length outs = 8"
    and "\<forall>out \<in> set outs. answers_empty out"
  shows "fst (pollUntilIssued L (JStr u) None (c, e)) = Invoked (JBool False) NoRes
       \<and> trace (snd (snd (pollUntilIssued L (JStr u) None (c, e)))) = trace e @ backoff u 1 8
       \<and> pending (snd (snd (pollUntilIssued L (JStr u) None (c, e)))) = rest"
proof -
  have "(1::int) * 2 ^ length outs \<le> 256"
    using assms(2) by simp
  from pollUntilIssued_pending [OF assms(1,3) order_refl this, of L u c] assms(2)
  obtain c' where "pollUntilIssued L (JStr u) (Some 1) (c, e)
     = pollUntilIssued L (JStr u) (Some 256) (c', e\<lparr>trace := trace e @ backoff u 1 8, pending := rest\<rparr>)"
    by auto
  then show ?thesis
    by (simp add: pollUntilIssued_None pollUntilIssued_stop)
qed

lemma pollUntilValid_at_most:
  "length (requests (trace (snd (snd (pollUntilValid L uri None s)))))
     \<le> length (requests (trace (snd s))) + 8
   \<and> delay (trace (snd (snd (pollUntilValid L uri None s)))) \<le> delay (trace (snd s)) + 127500"
proof -
  obtain c e where s: "s = (c, e)"
    by (cases s)
  obtain a c' e' where r: "pollUntilValid L uri (Some 1) (c, e) = (a, c', e')"
    by (metis prod_cases3)
  have "(128::int) < 1 * 2 ^ 8"
    by simp
  from pollUntilValid_bound [OF order_refl this r] show ?thesis
    using s r by (simp add: pollUntilValid_None)
qed

lemma pollUntilIssued_at_most:
  "length (requests (trace (snd (snd (pollUntilIssued L uri None s)))))
     \<le> length (requests (trace (snd s))) + 8
   \<and> delay (trace (snd (snd (pollUntilIssued L uri None s)))) \<le> delay (trace (snd s)) + 127500"
proof -
  obtain c e where s: "s = (c, e)"
    by (cases s)
  obtain a c' e' where r: "pollUntilIssued L uri (Some 1) (c, e) = (a, c', e')"
    by (metis prod_cases3)
  have "(128::int) < 1 * 2 ^ 8"
    by simp
  from pollUntilIssued_bound [OF order_refl this r] show ?thesis
    using s r by (simp add: pollUntilIssued_None)
qed


text \<open>
  Claim C4. Called without a retry factor, both pollers start with factor 1. When the next
  eight answers of the server are \<open>pending\<close> (for \<open>pollUntilValid\<close>; empty with a status
  below 400 for \<open>pollUntilIssued\<close>), the poller makes exactly eight GETs, sets the timers
  500, 1000, ..., 64000 ms after them, then finds the factor 256 above 128 and calls back
  \<open>false\<close> without a ninth GET: 127500 ms of delay in all, less than 128 s. A factor
  above 128 ends either poller at once. Against any server whatever, either poller makes
  at most eight GETs and sets timers of at most 127500 ms in all.
\<close>

theorem pollers_terminate:
  assumes "pending e = outs @ rest" and "length outs = 8"
  shows "((\<forall>out \<in> set outs. answers_pending L out) \<longrightarrow>
            fst (pollUntilValid L (JStr u) None (c, e)) = Invoked (JBool False) NoRes
          \<and> trace (snd (snd (pollUntilValid L (JStr u) None (c, e)))) = trace e @ backoff u 1 8
          \<and> pending (snd (snd (pollUntilValid L (JStr u) None (c, e)))) = rest)
    \<and> ((\<forall>out \<in> set outs. answers_empty out) \<longrightarrow>
            fst (pollUntilIssued L (JStr u) None (c, e)) = Invoked (JBool False) NoRes
          \<and> trace (snd (snd (pollUntilIssued L (JStr u) None (c, e)))) = trace e @ backoff u 1 8
          \<and> pending (snd (snd (pollUntilIssued L (JStr u) None (c, e)))) = rest)
    \<and> backoff u 1 8 =
         [Request ''GET'' u None, Timer 500, Request ''GET'' u None, Timer 1000,
          Request ''GET'' u None, Timer 2000, Request ''GET'' u None, Timer 4000,
          Request ''GET'' u None, Timer 8000, Request ''GET'' u None, Timer 16000,
          Request ''GET'' u None, Timer 32000, Request ''GET'' u None, Timer 64000]
    \<and> length (requests (backoff u 1 8)) = 8
    \<and> delay (backoff u 1 8) = 127500
    \<and> (128 < r \<longrightarrow> pollUntilValid L uri (Some r) s = (Invoked (JBool False) NoRes, s)
                  \<and> pollUntilIssued L uri (Some r) s = (Invoked (JBool False) NoRes, s))
    \<and> length (requests (trace (snd (snd (pollUntilValid L uri None s)))))
         \<le> length (requests (trace (snd s))) + 8
    \<and> delay (trace (snd (snd (pollUntilValid L uri None s)))) \<le> delay (trace (snd s)) + 127500
    \<and> length (requests (trace (snd (snd (pollUntilIssued L uri None s)))))
         \<le> length (requests (trace (snd s))) + 8
    \<and> delay (trace (snd (snd (pollUntilIssued L uri None s)))) \<le> delay (trace (snd s)) + 127500"
proof -
  have numbers: "length (requests (backoff u 1 8)) = 8 \<and> delay (backoff u 1 8) = 127500"
    by (simp add: backoff_eight)
  show ?thesis
    using pollUntilValid_perpetual [OF assms, where L = L and u = u and c = c]
      pollUntilIssued_perpetual [OF assms, where L = L and u = u and c = c]
      backoff_eight [of u] numbers pollUntilValid_stop [of r L uri s] pollUntilIssued_stop [of r L uri s]
      pollUntilValid_at_most [of L uri s] pollUntilIssued_at_most [of L uri s]
    by blast
qed

theorem pollers_terminate_witness:
  "fst (pollUntilValid (double [still_pending]) (JStr ''https://ca.example/acme/authz/1'') None
          (example_client,
           \<lparr>pending = [pending_reply, pending_reply, pending_reply, pending_reply, pending_reply,
                       pending_reply, pending_reply, pending_reply, pending_reply],
            trace = []\<rparr>))
     = Invoked (JBool False) NoRes
   \<and> pending (snd (snd (pollUntilValid (double [still_pending]) (JStr ''https://ca.example/acme/authz/1'') None
          (example_client,
           \<lparr>pending = [pending_reply, pending_reply, pending_reply, pending_reply, pending_reply,
                       pending_reply, pending_reply, pending_reply, pending_reply],
            trace = []\<rparr>))))
     = [pending_reply]
   \<and> fst (pollUntilIssued (double []) (JStr ''https://ca.example/acme/cert/1'') None
          (example_client,
           \<lparr>pending = [accepted_reply, accepted_reply, accepted_reply, accepted_reply, accepted_reply,
                       accepted_reply, accepted_reply, accepted_reply, accepted_reply],
            trace = []\<rparr>))
     = Invoked (JBool False) NoRes
   \<and> pending (snd (snd (pollUntilIssued (double []) (JStr ''https://ca.example/acme/cert/1'') None
          (example_client,
           \<lparr>pending = [accepted_reply, accepted_reply, accepted_reply, accepted_reply, accepted_reply,
                       accepted_reply, accepted_reply, accepted_reply, accepted_reply],
            trace = []\<rparr>))))
     = [accepted_reply]"
proof -
  let ?ps = "[pending_reply, pending_reply, pending_reply, pending_reply,
              pending_reply, pending_reply, pending_reply, pending_reply]"
  let ?as = "[accepted_reply, accepted_reply, accepted_reply, accepted_reply,
              accepted_reply, accepted_reply, accepted_reply, accepted_reply]"
  let ?ev = "\<lparr>pending = [pending_reply, pending_reply, pending_reply, pending_reply, pending_reply,
                       pending_reply, pending_reply, pending_reply, pending_reply],
            trace = []\<rparr>"
  let ?ei = "\<lparr>pending = [accepted_reply, accepted_reply, accepted_reply, accepted_reply, accepted_reply,
                       accepted_reply, accepted_reply, accepted_reply, accepted_reply],
            trace = []\<rparr>"
  have 1: "pending ?ev = ?ps @ [pending_reply]" and 2: "length ?ps = 8"
    by simp_all
  have 3: "\<forall>out \<in> set ?ps. answers_pending (double [still_pending]) out"
    by (simp add: pending_reply_def isJSON_def double_def parse_among_def still_pending_def quoted_def)
  have 4: "pending ?ei = ?as @ [accepted_reply]" and 5: "length ?as = 8"
    by simp_all
  have 6: "\<forall>out \<in> set ?as. answers_empty out"
    by (simp add: accepted_reply_def)
  from pollers_terminate [OF 1 2, where L = "double [still_pending]"
      and u = "''https://ca.example/acme/authz/1''" and c = example_client] 3
  have v: "fst (pollUntilValid (double [still_pending]) (JStr ''https://ca.example/acme/authz/1'') None
          (example_client, ?ev)) = Invoked (JBool False) NoRes
    \<and> pending (snd (snd (pollUntilValid (double [still_pending])
          (JStr ''https://ca.example/acme/authz/1'') None (example_client, ?ev)))) = [pending_reply]"
    by blast
  from pollers_terminate [OF 4 5, where L = "double []"
      and u = "''https://ca.example/acme/cert/1''" and c = example_client] 6
  have i: "fst (pollUntilIssued (double []) (JStr ''https://ca.example/acme/cert/1'') None
          (example_client, ?ei)) = Invoked (JBool False) NoRes
    \<and> pending (snd (snd (pollUntilIssued (double [])
          (JStr ''https://ca.example/acme/cert/1'') None (example_client, ?ei)))) = [accepted_reply]"
    by blast
  from v i show ?thesis
    by blast
qed

section \<open>Domain authorization\<close>






























end
